theory Spec2Isabelle
  imports Complex_Main
begin

section \<open>Data model of \<^verbatim>\<open>openprocurement_client/sync.py\<close>\<close>

text \<open>
  Items of the feed are opaque records. A response of the client carries the page's
  items (\<^verbatim>\<open>response.data\<close>) and the two cursors \<^verbatim>\<open>response.next_page.offset\<close> and
  \<^verbatim>\<open>response.prev_page.offset\<close>.
\<close>

type_synonym item = string

record response =
  data :: "item list"
  next_page_offset :: string
  prev_page_offset :: string

text \<open>The statuses are the module constants 0 .. 5, in the order of their values.\<close>

datatype status = FINISHED | INITIALIZED | SLEEP | PROCESS_REQUEST | PROCESS_DATA | BROKEN

text \<open>
  The exceptions that the module distinguishes. \<open>RequestFailed\<close> carries its
  \<^verbatim>\<open>status_code\<close>; \<open>KeyError\<close> carries the missing key and \<open>AttributeError\<close> the
  missing attribute; \<open>Exception\<close> stands for every other exception and carries its
  message. The four named classes of the \<^verbatim>\<open>except\<close>
  chain are taken to be pairwise unrelated, as the chain treats them.
\<close>

datatype exn =
    PreconditionFailed
  | ConnectionError
  | RequestFailed int
  | ResourceNotFound
  | KeyError string
  | AttributeError string
  | Exception string

text \<open>
  The values of a query-parameter dict are booleans and strings; dicts are maps.
  A cookie jar is seen through its name/value mapping, which is what the comparison
  of two jars compares.
\<close>

datatype pval = PBool bool | PStr string

type_synonym params = "string \<rightharpoonup> pval"
type_synonym jar = "string \<rightharpoonup> string"

text \<open>
  The client (\<^verbatim>\<open>TendersClientSync\<close>) is not part of this module. One call of
  \<^verbatim>\<open>client.sync_tenders(params)\<close> is described by an \<open>attempt\<close>: what the call does to
  the client's session (it either stores cookies into the jar that the session holds,
  or rebinds \<^verbatim>\<open>session.cookies\<close> to a new jar), and how it ends (a response, or an
  exception). The upstream is a list of attempts, consumed one per call. The client is
  taken not to modify the params dict that it is passed.
\<close>

datatype session_effect = InPlace "(string \<times> string) list" | Rebind "(string \<times> string) list"

datatype outcome = Ok response | Fail exn

record attempt =
  effect :: session_effect
  outcome :: outcome

text \<open>
  A greenlet as the supervisor sees it: still running, returned a value, died of an
  exception, or was killed.
\<close>

datatype greenlet = Running | Returned int | Died exn | Killed

text \<open>
  Calls on the metrics object, in the order made. The latency sample of
  \<^verbatim>\<open>{direction}_process_request\<close> and the time stamps of the \<^verbatim>\<open>last_response\<close>
  dimensions are wall-clock readings; only the call is recorded for them.
\<close>

datatype metric =
    add_count string int
  | add_latency string
  | set_dimension string "rat option"

text \<open>The two retrievers, and the two clients.\<close>

datatype direction = Backward | Forward

text \<open>
  The state of a \<^verbatim>\<open>ResourceFeeder\<close>. The cookie jars live in a store (\<open>jars\<close>), and
  \<open>cookies\<close>, \<open>forward_client\<close> and \<open>backward_client\<close> hold the address of the jar that
  \<^verbatim>\<open>self.cookies\<close>, \<^verbatim>\<open>self.forward_client.session.cookies\<close> and
  \<^verbatim>\<open>self.backward_client.session.cookies\<close> refer to, so that aliasing is explicit.
  \<open>queue\<close> and \<open>queue_maxsize\<close> are the gevent queue; \<open>slept\<close> is the list of the
  arguments of the calls of \<^verbatim>\<open>sleep\<close>, oldest first, and \<open>requests\<close> the list of the
  calls of \<^verbatim>\<open>sync_tenders\<close>, with the client that made the call and the params it was
  given. \<open>backward_worker\<close> and \<open>forward_worker\<close> are \<open>None\<close> as long as the attribute
  is not set, and \<open>spawned\<close> counts the calls of \<^verbatim>\<open>spawn\<close> for a retriever.

  The values of \<^verbatim>\<open>retrievers_params\<close> are Python numbers: the module's defaults are ints,
  its \<^verbatim>\<open>.get\<close> fallbacks are floats, and nothing converts what the caller passes. They
  are modelled as rationals; the module only compares them and adds or subtracts 1,
  which is exact for ints and for the floats that the examples use.
\<close>

record feeder =
  adaptive :: bool
  extra_params :: params
  retrievers_params :: "string \<rightharpoonup> rat"
  queue_maxsize :: rat
  queue :: "item list"
  forward_info :: "status option"
  backward_info :: "status option"
  resource_item_count :: "int option"
  backward_params :: params
  forward_params :: params
  backward_client :: nat
  forward_client :: nat
  cookies :: nat
  jars :: "nat \<Rightarrow> jar"
  jar_count :: nat
  metrics :: "metric list"
  slept :: "rat list"
  requests :: "(direction \<times> params) list"
  spawned :: nat
  backward_worker :: "greenlet option"
  forward_worker :: "greenlet option"

text \<open>
  How a run of a piece of code ends: it returns a value, raises, waits for a response
  that the given upstream does not contain (\<open>Pending\<close>), or is blocked in
  \<^verbatim>\<open>queue.put\<close> on a full queue, holding the items it has not enqueued yet.
\<close>

datatype 'a run = Done 'a | Raised exn | Pending | Blocked "item list"

fun abort :: "'a run \<Rightarrow> 'b run" where
  "abort (Raised e) = Raised e"
| "abort (Blocked ts) = Blocked ts"
| "abort _ = Pending"

fun direction_name :: "direction \<Rightarrow> string" where
  "direction_name Backward = ''backward''"
| "direction_name Forward = ''forward''"

fun client_of :: "direction \<Rightarrow> feeder \<Rightarrow> nat" where
  "client_of Backward fd = backward_client fd"
| "client_of Forward fd = forward_client fd"

fun set_client :: "direction \<Rightarrow> nat \<Rightarrow> feeder \<Rightarrow> feeder" where
  "set_client Backward a fd = fd\<lparr>backward_client := a\<rparr>"
| "set_client Forward a fd = fd\<lparr>forward_client := a\<rparr>"

fun params_of :: "direction \<Rightarrow> feeder \<Rightarrow> params" where
  "params_of Backward fd = backward_params fd"
| "params_of Forward fd = forward_params fd"

fun set_params :: "direction \<Rightarrow> params \<Rightarrow> feeder \<Rightarrow> feeder" where
  "set_params Backward p fd = fd\<lparr>backward_params := p\<rparr>"
| "set_params Forward p fd = fd\<lparr>forward_params := p\<rparr>"

definition count :: "string \<Rightarrow> int \<Rightarrow> feeder \<Rightarrow> feeder" where
  "count name n fd = fd\<lparr>metrics := metrics fd @ [add_count name n]\<rparr>"

definition latency :: "string \<Rightarrow> feeder \<Rightarrow> feeder" where
  "latency name fd = fd\<lparr>metrics := metrics fd @ [add_latency name]\<rparr>"

definition dimension :: "string \<Rightarrow> rat option \<Rightarrow> feeder \<Rightarrow> feeder" where
  "dimension name v fd = fd\<lparr>metrics := metrics fd @ [set_dimension name v]\<rparr>"

definition sleep :: "rat \<Rightarrow> feeder \<Rightarrow> feeder" where
  "sleep seconds fd = fd\<lparr>slept := slept fd @ [seconds]\<rparr>"

section \<open>The client call\<close>

text \<open>
  Modelled from the spec: \<^verbatim>\<open>TendersClientSync.sync_tenders\<close> of \<^verbatim>\<open>client.py\<close>, which
  is not part of this module (the spec's Fetcher: one request, no retry, one of the
  listed outcomes, side effect on the session cookies). The call is made by the client
  of the given direction: the attempt's effect on the session, then its outcome.
  Cookies stored in place are seen through every reference to the jar; a rebound
  session holds a jar of its own.
\<close>

definition sync_tenders :: "direction \<Rightarrow> attempt \<Rightarrow> feeder \<Rightarrow> outcome \<times> feeder" where
  "sync_tenders d a fd =
     (let fd0 = fd\<lparr>requests := requests fd @ [(d, params_of d fd)]\<rparr> in
      case effect a of
        InPlace cs \<Rightarrow>
          (outcome a,
           fd0\<lparr>jars := (jars fd)(client_of d fd := jars fd (client_of d fd) ++ map_of cs)\<rparr>)
      | Rebind cs \<Rightarrow>
          (outcome a,
           set_client d (jar_count fd)
             (fd0\<lparr>jars := (jars fd)(jar_count fd := map_of cs),
                  jar_count := Suc (jar_count fd)\<rparr>)))"

section \<open>The retry loop\<close>

text \<open>
  \<^verbatim>\<open>get_response(client, params, metrics, direction)\<close>. Both callers pass
  \<^verbatim>\<open>self.<direction>_client\<close>, \<^verbatim>\<open>self.<direction>_params\<close> and \<^verbatim>\<open>self.metrics\<close>, so the
  three objects are selected from the feeder by the direction, and what the loop does
  to them is what the caller sees afterwards (they are passed by reference).

  \<open>sleep_interval\<close> is a Python float that starts at 0.2 and is only ever doubled.
  Doubling is exact in binary floating point and the values \<open>0.2 * 2 ^ k\<close> are far from
  the thresholds 120 and 300, so every comparison comes out as over the rationals.

  An exception raised inside an \<^verbatim>\<open>except\<close> clause is not caught by the later clauses
  of the same \<^verbatim>\<open>try\<close>: the \<open>KeyError\<close> of \<^verbatim>\<open>del params['offset']\<close> leaves the loop.
  A \<open>RequestFailed\<close> whose status is not 429 falls out of its clause with
  \<^verbatim>\<open>response_fail\<close> still true, so the loop goes round again.
\<close>

fun get_response_loop ::
  "rat \<Rightarrow> direction \<Rightarrow> attempt list \<Rightarrow> feeder \<Rightarrow> response run \<times> attempt list \<times> feeder" where
  "get_response_loop sleep_interval d [] fd = (Pending, [], fd)"
| "get_response_loop sleep_interval d (a # upstream) fd =
     (case sync_tenders d a fd of
        (Ok response, fd1) \<Rightarrow>
          (Done response, upstream,
           count (direction_name d @ ''_success_requests'') 1
             (latency (direction_name d @ ''_process_request'') fd1))
      | (Fail PreconditionFailed, fd1) \<Rightarrow>
          get_response_loop sleep_interval d upstream
            (count (direction_name d @ ''_precondition_failed'') 1 fd1)
      | (Fail ConnectionError, fd1) \<Rightarrow>
          (let fd2 = count (direction_name d @ ''_connection_error'') 1 fd1 in
           if sleep_interval > 300 then (Raised ConnectionError, upstream, fd2)
           else get_response_loop (sleep_interval * 2) d upstream
                  (sleep (sleep_interval * 2) fd2))
      | (Fail (RequestFailed status_code), fd1) \<Rightarrow>
          (let fd2 = count (direction_name d @ ''_request_failed'') 1 fd1 in
           if status_code = 429 then
             if sleep_interval > 120 then (Raised (RequestFailed status_code), upstream, fd2)
             else get_response_loop (sleep_interval * 2) d upstream
                    (sleep (sleep_interval * 2) fd2)
           else get_response_loop sleep_interval d upstream fd2)
      | (Fail ResourceNotFound, fd1) \<Rightarrow>
          (let fd2 = count (direction_name d @ ''_resource_not_found'') 1 fd1;
               fd3 = fd2\<lparr>jars := (jars fd2)(client_of d fd2 := Map.empty)\<rparr> in
           if params_of d fd3 ''offset'' = None then (Raised (KeyError ''offset''), upstream, fd3)
           else get_response_loop sleep_interval d upstream
                  (set_params d ((params_of d fd3)(''offset'' := None)) fd3))
      | (Fail e, fd1) \<Rightarrow>
          (let fd2 = count (direction_name d @ ''_exception'') 1 fd1 in
           if sleep_interval > 300 then (Raised e, upstream, fd2)
           else get_response_loop (sleep_interval * 2) d upstream
                  (sleep (sleep_interval * 2) fd2)))"

definition get_response ::
  "direction \<Rightarrow> attempt list \<Rightarrow> feeder \<Rightarrow> response run \<times> attempt list \<times> feeder" where
  "get_response d upstream fd = get_response_loop (1 / 5) d upstream fd"

section \<open>Constants and construction\<close>

definition DEFAULT_RETRIEVERS_PARAMS :: "string \<rightharpoonup> rat" where
  "DEFAULT_RETRIEVERS_PARAMS =
     [''down_requests_sleep'' \<mapsto> 5, ''up_requests_sleep'' \<mapsto> 1, ''up_wait_sleep'' \<mapsto> 30,
      ''up_wait_sleep_min'' \<mapsto> 5, ''queue_size'' \<mapsto> 101]"

definition DEFAULT_API_EXTRA_PARAMS :: params where
  "DEFAULT_API_EXTRA_PARAMS = [''opt_fields'' \<mapsto> PStr ''status'', ''mode'' \<mapsto> PStr ''_all_'']"

text \<open>
  \<^verbatim>\<open>ResourceFeeder.__init__\<close>, for the arguments that this module uses itself. The
  queue is \<^verbatim>\<open>Queue(maxsize=retrievers_params['queue_size'])\<close>; a missing key raises.
  The attributes that \<^verbatim>\<open>init_api_clients\<close> and \<^verbatim>\<open>start_sync\<close> create are not set yet.
  The greenlet of \<^verbatim>\<open>send_metrics\<close>, which only reads the state, is left out.
\<close>

definition ResourceFeeder_init :: "params \<Rightarrow> (string \<rightharpoonup> rat) \<Rightarrow> bool \<Rightarrow> exn + feeder" where
  "ResourceFeeder_init extra retrievers adapt =
     (case retrievers ''queue_size'' of
        None \<Rightarrow> Inl (KeyError ''queue_size'')
      | Some n \<Rightarrow>
          Inr \<lparr>adaptive = adapt, extra_params = extra, retrievers_params = retrievers,
               queue_maxsize = n, queue = [], forward_info = None, backward_info = None,
               resource_item_count = None, backward_params = Map.empty,
               forward_params = Map.empty, backward_client = 0, forward_client = 0,
               cookies = 0, jars = (\<lambda>_. Map.empty), jar_count = 0, metrics = [], slept = [],
               requests = [], spawned = 0,
               backward_worker = None, forward_worker = None\<rparr>)"

section \<open>The queue\<close>

text \<open>
  \<^verbatim>\<open>self.queue.put(tender)\<close> on the gevent queue, by the contract of the library (the
  spec's Queue: a bounded FIFO whose producers block when it is full): the item is
  appended when the queue holds fewer than \<open>maxsize\<close> items, and the caller blocks
  otherwise; a \<open>maxsize\<close> that is not positive means no bound. \<open>None\<close> is the
  blocked call.
\<close>

definition put :: "item \<Rightarrow> feeder \<Rightarrow> feeder option" where
  "put t fd =
     (if queue_maxsize fd \<le> 0 \<or> of_nat (length (queue fd)) < queue_maxsize fd
      then Some (fd\<lparr>queue := queue fd @ [t]\<rparr>) else None)"

fun handle_response_data :: "item list \<Rightarrow> feeder \<Rightarrow> unit run \<times> feeder" where
  "handle_response_data [] fd = (Done (), fd)"
| "handle_response_data (tender # rest) fd =
     (case put tender fd of
        None \<Rightarrow> (Blocked (tender # rest), fd)
      | Some fd' \<Rightarrow> handle_response_data rest fd')"

section \<open>The retrievers\<close>

text \<open>
  \<^verbatim>\<open>log_retriever_state\<close> only logs, but it reads \<^verbatim>\<open>params['offset']\<close> and
  \<^verbatim>\<open>params['limit']\<close> by subscript, in this order, and a missing key raises.
\<close>

definition log_retriever_state :: "direction \<Rightarrow> feeder \<Rightarrow> exn option" where
  "log_retriever_state d fd =
     (if params_of d fd ''offset'' = None then Some (KeyError ''offset'')
      else if params_of d fd ''limit'' = None then Some (KeyError ''limit'')
      else None)"

text \<open>\<^verbatim>\<open>self.cookies != self.<direction>_client.session.cookies\<close>\<close>

definition mismatch :: "direction \<Rightarrow> feeder \<Rightarrow> bool" where
  "mismatch d fd \<longleftrightarrow> jars fd (cookies fd) \<noteq> jars fd (client_of d fd)"

text \<open>\<^verbatim>\<open>self.retrievers_params.get(key, default)\<close>, as the argument of \<^verbatim>\<open>sleep\<close>\<close>

definition get_sleep :: "feeder \<Rightarrow> string \<Rightarrow> rat \<Rightarrow> rat" where
  "get_sleep fd key dflt =
     (case retrievers_params fd key of None \<Rightarrow> dflt | Some v \<Rightarrow> v)"

definition set_offset :: "direction \<Rightarrow> string \<Rightarrow> feeder \<Rightarrow> feeder" where
  "set_offset d offset fd = set_params d ((params_of d fd)(''offset'' \<mapsto> PStr offset)) fd"

lemma get_response_loop_length:
  "get_response_loop si d upstream fd = (Done r, upstream', fd') \<Longrightarrow>
   length upstream' < length upstream"
proof (induction upstream arbitrary: si fd)
  case Nil
  then show ?case by simp
next
  case (Cons a upstream)
  obtain o1 fd1 where s: "sync_tenders d a fd = (o1, fd1)"
    by (cases "sync_tenders d a fd")
  show ?case
  proof (cases o1)
    case (Ok resp)
    with Cons.prems s show ?thesis by simp
  next
    case (Fail e)
    with Cons.prems s have
      "\<exists>si' fd''. get_response_loop si' d upstream fd'' = (Done r, upstream', fd')"
      by (cases e) (auto simp: Let_def split: if_splits)
    then show ?thesis using Cons.IH by fastforce
  qed
qed

lemma get_response_length:
  "get_response d upstream fd = (Done r, upstream', fd') \<Longrightarrow>
   length upstream' < length upstream"
  unfolding get_response_def by (rule get_response_loop_length)

text \<open>
  The body of the \<^verbatim>\<open>while response.data\<close> loop of \<^verbatim>\<open>retriever_backward\<close>: it
  returns the new value of \<^verbatim>\<open>response\<close>, unless it raises, blocks or waits.
\<close>

definition backward_body ::
  "response \<Rightarrow> attempt list \<Rightarrow> feeder \<Rightarrow> response run \<times> attempt list \<times> feeder" where
  "backward_body response upstream fd =
     (case handle_response_data (data response) (fd\<lparr>backward_info := Some PROCESS_DATA\<rparr>) of
        (Done u, fd1) \<Rightarrow>
          (let fd2 = set_offset Backward (next_page_offset response) fd1 in
           case log_retriever_state Backward fd2 of
             Some e \<Rightarrow> (Raised e, upstream, fd2)
           | None \<Rightarrow>
               (case get_response Backward upstream (fd2\<lparr>backward_info := Some PROCESS_REQUEST\<rparr>) of
                  (Done response', upstream', fd3) \<Rightarrow>
                    (let fd4 = count ''backward_resource_count'' (int (length (data response')))
                                 (dimension ''backward_last_response'' None fd3) in
                     if mismatch Backward fd4
                     then (Raised (Exception ''LB Server mismatch''), upstream', fd4)
                     else (Done response', upstream',
                           sleep (get_sleep fd4 ''down_requests_sleep'' 5)
                             (fd4\<lparr>backward_info := Some SLEEP\<rparr>)))
                | (r, upstream', fd3) \<Rightarrow> (abort r, upstream', fd3)))
      | (r, fd1) \<Rightarrow> (abort r, upstream, fd1))"

lemma backward_body_length:
  "backward_body response upstream fd = (Done r, upstream', fd') \<Longrightarrow>
   length upstream' < length upstream"
  unfolding backward_body_def
  by (auto simp: Let_def split: prod.splits run.splits option.splits if_splits
           dest: get_response_length)

text \<open>The loop itself, with what follows it; it is entered with the response fetched last.\<close>

function backward_loop ::
  "response \<Rightarrow> attempt list \<Rightarrow> feeder \<Rightarrow> int run \<times> attempt list \<times> feeder" where
  "backward_loop response upstream fd =
     (if data response \<noteq> [] then
        (case backward_body response upstream fd of
           (Done response', upstream', fd') \<Rightarrow> backward_loop response' upstream' fd'
         | (r, upstream', fd') \<Rightarrow> (abort r, upstream', fd'))
      else (Done 0, upstream, fd\<lparr>backward_info := Some FINISHED\<rparr>))"
  by pat_completeness auto
termination
  by (relation "measure (\<lambda>(response, upstream, fd). length upstream)")
     (auto dest: backward_body_length [OF sym])

declare backward_loop.simps [simp del]

definition retriever_backward :: "attempt list \<Rightarrow> feeder \<Rightarrow> int run \<times> attempt list \<times> feeder" where
  "retriever_backward upstream fd =
     (case get_response Backward upstream (fd\<lparr>backward_info := Some PROCESS_REQUEST\<rparr>) of
        (Done response, upstream', fd1) \<Rightarrow>
          (let fd2 = count ''backward_resource_count'' (int (length (data response)))
                       (dimension ''backward_last_response'' None fd1) in
           if mismatch Backward fd2
           then (Raised (Exception ''LB Server mismatch''), upstream', fd2)
           else backward_loop response upstream' fd2)
      | (r, upstream', fd1) \<Rightarrow> (abort r, upstream', fd1))"

text \<open>
  The body of the inner \<^verbatim>\<open>while response.data\<close> loop of \<^verbatim>\<open>retriever_forward\<close>, and
  the loop, which returns the empty response that ends it.
\<close>

definition forward_data_body ::
  "response \<Rightarrow> attempt list \<Rightarrow> feeder \<Rightarrow> response run \<times> attempt list \<times> feeder" where
  "forward_data_body response upstream fd =
     (case handle_response_data (data response) (fd\<lparr>forward_info := Some PROCESS_DATA\<rparr>) of
        (Done u, fd1) \<Rightarrow>
          (let fd2 = set_offset Forward (next_page_offset response) fd1 in
           case log_retriever_state Forward fd2 of
             Some e \<Rightarrow> (Raised e, upstream, fd2)
           | None \<Rightarrow>
               (case get_response Forward upstream (fd2\<lparr>forward_info := Some PROCESS_REQUEST\<rparr>) of
                  (Done response', upstream', fd3) \<Rightarrow>
                    (let fd4 = count ''forward_resource_count'' (int (length (data response')))
                                 (dimension ''forward_last_response'' None fd3) in
                     if mismatch Forward fd4
                     then (Raised (Exception ''LB Server mismatch''), upstream', fd4)
                     else (Done response', upstream',
                           if length (data response') \<noteq> 0
                           then sleep (get_sleep fd4 ''up_requests_sleep'' 1)
                                  (fd4\<lparr>forward_info := Some SLEEP\<rparr>)
                           else fd4))
                | (r, upstream', fd3) \<Rightarrow> (abort r, upstream', fd3)))
      | (r, fd1) \<Rightarrow> (abort r, upstream, fd1))"

lemma forward_data_body_length:
  "forward_data_body response upstream fd = (Done r, upstream', fd') \<Longrightarrow>
   length upstream' < length upstream"
  unfolding forward_data_body_def
  by (auto simp: Let_def split: prod.splits run.splits option.splits if_splits
           dest: get_response_length)

function forward_data_loop ::
  "response \<Rightarrow> attempt list \<Rightarrow> feeder \<Rightarrow> response run \<times> attempt list \<times> feeder" where
  "forward_data_loop response upstream fd =
     (if data response \<noteq> [] then
        (case forward_data_body response upstream fd of
           (Done response', upstream', fd') \<Rightarrow> forward_data_loop response' upstream' fd'
         | (r, upstream', fd') \<Rightarrow> (abort r, upstream', fd'))
      else (Done response, upstream, fd))"
  by pat_completeness auto
termination
  by (relation "measure (\<lambda>(response, upstream, fd). length upstream)")
     (auto dest: forward_data_body_length [OF sym])

declare forward_data_loop.simps [simp del]

text \<open>
  The \<^verbatim>\<open>if self.adaptive:\<close> block of \<^verbatim>\<open>retriever_forward\<close>, given the number of items
  of the response fetched last. The entries of \<^verbatim>\<open>retrievers_params\<close> are read by
  subscript, left operand first.
\<close>

definition adapt :: "nat \<Rightarrow> feeder \<Rightarrow> exn + feeder" where
  "adapt len fd =
     (if adaptive fd then
        (if len \<noteq> 0 then
           (case retrievers_params fd ''up_wait_sleep'' of
              None \<Rightarrow> Inl (KeyError ''up_wait_sleep'')
            | Some w \<Rightarrow>
                (case retrievers_params fd ''up_wait_sleep_min'' of
                   None \<Rightarrow> Inl (KeyError ''up_wait_sleep_min'')
                 | Some m \<Rightarrow>
                     if w > m
                     then Inr (fd\<lparr>retrievers_params := (retrievers_params fd)(''up_wait_sleep'' \<mapsto> w - 1)\<rparr>)
                     else Inr fd))
         else
           (case retrievers_params fd ''up_wait_sleep'' of
              None \<Rightarrow> Inl (KeyError ''up_wait_sleep'')
            | Some w \<Rightarrow>
                if w < 30
                then Inr (fd\<lparr>retrievers_params := (retrievers_params fd)(''up_wait_sleep'' \<mapsto> w + 1)\<rparr>)
                else Inr fd))
      else Inr fd)"

lemma forward_data_loop_length:
  "forward_data_loop response upstream fd = (Done r, upstream', fd') \<Longrightarrow>
   length upstream' \<le> length upstream"
proof (induction "length upstream" arbitrary: response upstream fd rule: less_induct)
  case less
  show ?case
  proof (cases "data response = []")
    case True
    with less.prems show ?thesis by (simp add: forward_data_loop.simps)
  next
    case False
    obtain r1 u1 fd1 where b: "forward_data_body response upstream fd = (r1, u1, fd1)"
      by (cases "forward_data_body response upstream fd")
    from False b have unfold:
      "forward_data_loop response upstream fd =
         (case r1 of Done response' \<Rightarrow> forward_data_loop response' u1 fd1
          | _ \<Rightarrow> (abort r1, u1, fd1))"
      by (subst forward_data_loop.simps) (simp split: run.splits)
    show ?thesis
    proof (cases r1)
      case (Done response')
      with b have shorter: "length u1 < length upstream"
        by (auto dest: forward_data_body_length)
      from unfold Done less.prems
      have "forward_data_loop response' u1 fd1 = (Done r, upstream', fd')" by simp
      with less.hyps [OF shorter] have "length upstream' \<le> length u1" by blast
      with shorter show ?thesis by simp
    next
      case (Raised e)
      with unfold less.prems show ?thesis by simp
    next
      case Pending
      with unfold less.prems show ?thesis by simp
    next
      case (Blocked ts)
      with unfold less.prems show ?thesis by simp
    qed
  qed
qed

text \<open>
  The body of the \<^verbatim>\<open>while 1\<close> loop of \<^verbatim>\<open>retriever_forward\<close>: the inner loop, the idle
  sleep, the fetch that follows it, the adaptive block, the session check and the
  \<^verbatim>\<open>forward_up_wait_sleep\<close> dimension, whose value is read by subscript.
\<close>

definition forward_body ::
  "response \<Rightarrow> attempt list \<Rightarrow> feeder \<Rightarrow> response run \<times> attempt list \<times> feeder" where
  "forward_body response upstream fd =
     (case forward_data_loop response upstream fd of
        (Done response1, upstream1, fd1) \<Rightarrow>
          (let fd2 = sleep (get_sleep fd1 ''up_wait_sleep'' 30) (fd1\<lparr>forward_info := Some SLEEP\<rparr>);
               fd3 = set_offset Forward (next_page_offset response1) fd2 in
           case log_retriever_state Forward fd3 of
             Some e \<Rightarrow> (Raised e, upstream1, fd3)
           | None \<Rightarrow>
               (case get_response Forward upstream1 (fd3\<lparr>forward_info := Some PROCESS_REQUEST\<rparr>) of
                  (Done response2, upstream2, fd4) \<Rightarrow>
                    (let fd5 = (count ''forward_resource_count'' (int (length (data response2)))
                                  (dimension ''forward_last_response'' None fd4))
                                 \<lparr>resource_item_count := Some (int (length (data response2)))\<rparr> in
                     case adapt (length (data response2)) fd5 of
                       Inl e \<Rightarrow> (Raised e, upstream2, fd5)
                     | Inr fd6 \<Rightarrow>
                         if mismatch Forward fd6
                         then (Raised (Exception ''LB Server mismatch''), upstream2, fd6)
                         else (case retrievers_params fd6 ''up_wait_sleep'' of
                                 None \<Rightarrow> (Raised (KeyError ''up_wait_sleep''), upstream2, fd6)
                               | Some w \<Rightarrow>
                                   (Done response2, upstream2,
                                    dimension ''forward_up_wait_sleep'' (Some w) fd6)))
                | (r, upstream2, fd4) \<Rightarrow> (abort r, upstream2, fd4)))
      | (r, upstream1, fd1) \<Rightarrow> (abort r, upstream1, fd1))"

lemma forward_body_length:
  assumes "forward_body response upstream fd = (Done r, upstream', fd')"
  shows "length upstream' < length upstream"
proof -
  obtain r1 u1 fd1 where l: "forward_data_loop response upstream fd = (r1, u1, fd1)"
    by (cases "forward_data_loop response upstream fd")
  with assms obtain response1 where r1: "r1 = Done response1"
    unfolding forward_body_def by (cases r1) auto
  from l r1 have le: "length u1 \<le> length upstream"
    by (auto dest: forward_data_loop_length)
  from assms l r1 obtain fdx r2 fd2 where
    "get_response Forward u1 fdx = (Done r2, upstream', fd2)"
    unfolding forward_body_def
    by (auto simp: Let_def split: prod.splits run.splits option.splits if_splits sum.splits)
  then have "length upstream' < length u1" by (rule get_response_length)
  with le show ?thesis by simp
qed

text \<open>
  The \<^verbatim>\<open>while 1\<close> loop. It has no exit (the \<^verbatim>\<open>return 1\<close> after it is never reached):
  a run over a finite upstream ends raised, blocked or waiting.
\<close>

function forward_loop ::
  "response \<Rightarrow> attempt list \<Rightarrow> feeder \<Rightarrow> int run \<times> attempt list \<times> feeder" where
  "forward_loop response upstream fd =
     (case forward_body response upstream fd of
        (Done response', upstream', fd') \<Rightarrow> forward_loop response' upstream' fd'
      | (r, upstream', fd') \<Rightarrow> (abort r, upstream', fd'))"
  by pat_completeness auto
termination
  by (relation "measure (\<lambda>(response, upstream, fd). length upstream)")
     (auto dest: forward_body_length [OF sym])

declare forward_loop.simps [simp del]

definition retriever_forward :: "attempt list \<Rightarrow> feeder \<Rightarrow> int run \<times> attempt list \<times> feeder" where
  "retriever_forward upstream fd =
     (case get_response Forward upstream (fd\<lparr>forward_info := Some PROCESS_REQUEST\<rparr>) of
        (Done response, upstream', fd1) \<Rightarrow>
          (let fd2 = count ''forward_resource_count'' (int (length (data response)))
                       (dimension ''forward_last_response'' None fd1) in
           if mismatch Forward fd2
           then (Raised (Exception ''LB Server mismatch''), upstream', fd2)
           else forward_loop response upstream' fd2)
      | (r, upstream', fd1) \<Rightarrow> (abort r, upstream', fd1))"

section \<open>The supervisor\<close>

text \<open>
  \<^verbatim>\<open>init_api_clients\<close>. \<^verbatim>\<open>dict.update\<close> lets the extra params override the keys set
  before. Each new client has a session with a new, empty jar; the last line makes
  \<^verbatim>\<open>self.cookies\<close> and the forward session refer to the jar of the backward session.
\<close>

definition init_api_clients :: "feeder \<Rightarrow> feeder" where
  "init_api_clients fd =
     (let forward_jar = jar_count fd; backward_jar = Suc (jar_count fd) in
      fd\<lparr>backward_params :=
            [''descending'' \<mapsto> PBool True, ''feed'' \<mapsto> PStr ''changes''] ++ extra_params fd,
          forward_params := [''feed'' \<mapsto> PStr ''changes''] ++ extra_params fd,
          jars := (jars fd)(forward_jar := Map.empty, backward_jar := Map.empty),
          jar_count := Suc (Suc (jar_count fd)),
          forward_info := Some INITIALIZED,
          backward_info := Some INITIALIZED,
          backward_client := backward_jar,
          forward_client := backward_jar,
          cookies := backward_jar\<rparr>)"

text \<open>
  \<^verbatim>\<open>start_sync\<close>. The first fetch is a plain call of the backward client, outside the
  retry loop, so an exception of the client leaves \<^verbatim>\<open>start_sync\<close>. The two calls of
  \<^verbatim>\<open>spawn\<close> come last, and each makes a new greenlet.
\<close>

fun start_sync :: "attempt list \<Rightarrow> feeder \<Rightarrow> unit run \<times> attempt list \<times> feeder" where
  "start_sync [] fd = (Pending, [], fd)"
| "start_sync (a # upstream) fd =
     (case sync_tenders Backward a fd of
        (Fail e, fd1) \<Rightarrow> (Raised e, upstream, fd1)
      | (Ok response, fd1) \<Rightarrow>
          (case handle_response_data (data response) fd1 of
             (Done u, fd2) \<Rightarrow>
               (Done (), upstream,
                (set_offset Forward (prev_page_offset response)
                   (set_offset Backward (next_page_offset response) fd2))
                \<lparr>spawned := Suc (Suc (spawned fd2)),
                 backward_worker := Some Running, forward_worker := Some Running\<rparr>)
           | (r, fd2) \<Rightarrow> (abort r, upstream, fd2)))"

text \<open>\<^verbatim>\<open>Greenlet.kill\<close>, \<^verbatim>\<open>Greenlet.ready\<close> and the test \<^verbatim>\<open>worker.value == 0\<close>\<close>

fun kill :: "greenlet \<Rightarrow> greenlet" where
  "kill Running = Killed"
| "kill g = g"

fun ready :: "greenlet \<Rightarrow> bool" where
  "ready Running = False"
| "ready _ = True"

fun value_is_0 :: "greenlet \<Rightarrow> bool" where
  "value_is_0 (Returned v) = (v = 0)"
| "value_is_0 _ = False"

text \<open>
  \<^verbatim>\<open>restart_sync\<close>: the forward worker is killed, then the backward worker, then the
  clients are built anew and \<^verbatim>\<open>start_sync\<close> runs. Reading a worker attribute that is
  not set raises \<open>AttributeError\<close>.
\<close>

definition restart_sync :: "attempt list \<Rightarrow> feeder \<Rightarrow> unit run \<times> attempt list \<times> feeder" where
  "restart_sync upstream fd =
     (case forward_worker fd of
        None \<Rightarrow> (Raised (AttributeError ''forward_worker''), upstream, fd)
      | Some f \<Rightarrow>
          (let fd1 = fd\<lparr>forward_worker := Some (kill f)\<rparr> in
           case backward_worker fd1 of
             None \<Rightarrow> (Raised (AttributeError ''backward_worker''), upstream, fd1)
           | Some b \<Rightarrow>
               start_sync upstream
                 (init_api_clients (fd1\<lparr>backward_worker := Some (kill b)\<rparr>))))"

text \<open>
  The two checks at the head of the \<^verbatim>\<open>while True\<close> loop of \<^verbatim>\<open>get_resource_items\<close>
  (and of \<^verbatim>\<open>feeder\<close>, which has the same ones), given \<^verbatim>\<open>check_down_worker\<close>; they
  return its new value. \<open>seeds\<close> is the upstream of the seeding fetches. The backward
  worker is read only when \<^verbatim>\<open>check_down_worker\<close> is true.
\<close>

definition check_backward ::
  "bool \<Rightarrow> attempt list \<Rightarrow> feeder \<Rightarrow> bool run \<times> attempt list \<times> feeder" where
  "check_backward check_down_worker seeds fd =
     (if check_down_worker then
        (case backward_worker fd of
           None \<Rightarrow> (Raised (AttributeError ''backward_worker''), seeds, fd)
         | Some b \<Rightarrow>
             if ready b then
               (if value_is_0 b then (Done False, seeds, fd)
                else (case restart_sync seeds fd of
                        (Done u, seeds1, fd1) \<Rightarrow> (Done True, seeds1, fd1)
                      | (r, seeds1, fd1) \<Rightarrow> (abort r, seeds1, fd1)))
             else (Done check_down_worker, seeds, fd))
      else (Done check_down_worker, seeds, fd))"

definition check_forward ::
  "bool \<Rightarrow> attempt list \<Rightarrow> feeder \<Rightarrow> bool run \<times> attempt list \<times> feeder" where
  "check_forward check_down_worker seeds fd =
     (case forward_worker fd of
        None \<Rightarrow> (Raised (AttributeError ''forward_worker''), seeds, fd)
      | Some f \<Rightarrow>
          if ready f then
            (case restart_sync seeds fd of
               (Done u, seeds1, fd1) \<Rightarrow> (Done True, seeds1, fd1)
             | (r, seeds1, fd1) \<Rightarrow> (abort r, seeds1, fd1))
          else (Done check_down_worker, seeds, fd))"

definition check_workers ::
  "bool \<Rightarrow> attempt list \<Rightarrow> feeder \<Rightarrow> bool run \<times> attempt list \<times> feeder" where
  "check_workers check_down_worker seeds fd =
     (case check_backward check_down_worker seeds fd of
        (Done check_down_worker1, seeds1, fd1) \<Rightarrow> check_forward check_down_worker1 seeds1 fd1
      | (r, seeds1, fd1) \<Rightarrow> (abort r, seeds1, fd1))"

text \<open>
  The \<^verbatim>\<open>while True\<close> loop of \<^verbatim>\<open>get_resource_items\<close>, one iteration per observation.
  Between two iterations the retrievers run; an observation is the pair of states
  (backward, forward) in which the supervisor finds the workers of the current pair
  at the head of the iteration. After the checks the loop yields every item of the
  queue. The result is the last value of \<^verbatim>\<open>check_down_worker\<close> and the items yielded.
\<close>

fun get_resource_items_loop ::
  "bool \<Rightarrow> (greenlet \<times> greenlet) list \<Rightarrow> attempt list \<Rightarrow> feeder \<Rightarrow>
   (bool \<times> item list) run \<times> attempt list \<times> feeder" where
  "get_resource_items_loop check_down_worker [] seeds fd = (Done (check_down_worker, []), seeds, fd)"
| "get_resource_items_loop check_down_worker ((b, f) # observations) seeds fd =
     (case check_workers check_down_worker seeds
             (fd\<lparr>backward_worker := Some b, forward_worker := Some f\<rparr>) of
        (Done check_down_worker1, seeds1, fd1) \<Rightarrow>
          (case get_resource_items_loop check_down_worker1 observations seeds1
                  (fd1\<lparr>queue := []\<rparr>) of
             (Done (c, yielded), seeds2, fd2) \<Rightarrow> (Done (c, queue fd1 @ yielded), seeds2, fd2)
           | (r, seeds2, fd2) \<Rightarrow> (abort r, seeds2, fd2))
      | (r, seeds1, fd1) \<Rightarrow> (abort r, seeds1, fd1))"

definition get_resource_items ::
  "(greenlet \<times> greenlet) list \<Rightarrow> attempt list \<Rightarrow> feeder \<Rightarrow>
   (bool \<times> item list) run \<times> attempt list \<times> feeder" where
  "get_resource_items observations seeds fd =
     (case start_sync seeds (init_api_clients fd) of
        (Done u, seeds1, fd1) \<Rightarrow> get_resource_items_loop True observations seeds1 fd1
      | (r, seeds1, fd1) \<Rightarrow> (abort r, seeds1, fd1))"

section \<open>Example inputs\<close>

text \<open>
  A page and a failing call that leave the session as it is; the feeder built by
  \<^verbatim>\<open>ResourceFeeder(extra_params={..., 'limit': '100'}, adaptive=True)\<close>; and that feeder
  after \<^verbatim>\<open>init_api_clients\<close> and a \<^verbatim>\<open>start_sync\<close> whose seed page is empty.
\<close>

definition page :: "item list \<Rightarrow> string \<Rightarrow> string \<Rightarrow> attempt" where
  "page items next_offset prev_offset =
     \<lparr>effect = InPlace [],
      outcome = Ok \<lparr>data = items, next_page_offset = next_offset, prev_page_offset = prev_offset\<rparr>\<rparr>"

definition failure :: "exn \<Rightarrow> attempt" where
  "failure e = \<lparr>effect = InPlace [], outcome = Fail e\<rparr>"

definition feeder0 :: feeder where
  "feeder0 =
     \<lparr>adaptive = True, extra_params = DEFAULT_API_EXTRA_PARAMS(''limit'' \<mapsto> PStr ''100''),
      retrievers_params = DEFAULT_RETRIEVERS_PARAMS,
      queue_maxsize = 101, queue = [], forward_info = None, backward_info = None,
      resource_item_count = None, backward_params = Map.empty,
      forward_params = Map.empty, backward_client = 0, forward_client = 0,
      cookies = 0, jars = (\<lambda>_. Map.empty), jar_count = 0, metrics = [], slept = [],
      requests = [], spawned = 0,
      backward_worker = None, forward_worker = None\<rparr>"

definition feeder1 :: feeder where
  "feeder1 = snd (snd (start_sync [page [] ''next0'' ''prev0''] (init_api_clients feeder0)))"

text \<open>
  The items of the page that an attempt returns; the bounds of the adaptive wait, as a
  predicate of the state; and an empty page that repeats the forward cursor.
\<close>

definition page_items :: "attempt \<Rightarrow> item list" where
  "page_items a = (case outcome a of Ok r \<Rightarrow> data r | Fail e \<Rightarrow> [])"



definition empty_response :: response where
  "empty_response = \<lparr>data = [], next_page_offset = ''prev0'', prev_page_offset = ''prev0''\<rparr>"

text \<open>
  The bound of the queue, as a predicate of the state, and a feeder whose queue of
  capacity 2 is full.
\<close>

definition queue_bounded :: "int \<Rightarrow> feeder \<Rightarrow> bool" where
  "queue_bounded n fd \<longleftrightarrow> queue_maxsize fd = of_int n \<and> int (length (queue fd)) \<le> n"

definition full_feeder :: feeder where
  "full_feeder = feeder1\<lparr>queue_maxsize := 2, queue := [''a'', ''b'']\<rparr>"



definition ascending_feeder :: feeder where
  "ascending_feeder =
     feeder0\<lparr>extra_params := (extra_params feeder0)(''descending'' \<mapsto> PBool False)\<rparr>"

definition narrow_feeder :: feeder where
  "narrow_feeder =
     feeder0\<lparr>retrievers_params := DEFAULT_RETRIEVERS_PARAMS(''queue_size'' \<mapsto> 1),
             queue_maxsize := 1\<rparr>"

section \<open>What the state transformers preserve\<close>

lemma sync_tenders_fst [simp]: "fst (sync_tenders d a fd) = outcome a"
  by (simp add: sync_tenders_def Let_def split: session_effect.splits)

lemma sync_tenders_frame [simp]:
  "slept (snd (sync_tenders d a fd)) = slept fd"
  "metrics (snd (sync_tenders d a fd)) = metrics fd"
  "params_of d' (snd (sync_tenders d a fd)) = params_of d' fd"
  "backward_params (snd (sync_tenders d a fd)) = backward_params fd"
  "forward_params (snd (sync_tenders d a fd)) = forward_params fd"
  "cookies (snd (sync_tenders d a fd)) = cookies fd"
  "retrievers_params (snd (sync_tenders d a fd)) = retrievers_params fd"
  "adaptive (snd (sync_tenders d a fd)) = adaptive fd"
  "queue (snd (sync_tenders d a fd)) = queue fd"
  "queue_maxsize (snd (sync_tenders d a fd)) = queue_maxsize fd"
  "backward_worker (snd (sync_tenders d a fd)) = backward_worker fd"
  "forward_worker (snd (sync_tenders d a fd)) = forward_worker fd"
  by (cases d; cases d'; simp add: sync_tenders_def Let_def split: session_effect.splits)+

lemma count_frame [simp]:
  "slept (count n v fd) = slept fd"
  "metrics (count n v fd) = metrics fd @ [add_count n v]"
  "params_of d (count n v fd) = params_of d fd"
  "client_of d (count n v fd) = client_of d fd"
  "backward_params (count n v fd) = backward_params fd"
  "forward_params (count n v fd) = forward_params fd"
  "backward_client (count n v fd) = backward_client fd"
  "forward_client (count n v fd) = forward_client fd"
  "backward_info (count n v fd) = backward_info fd"
  "forward_info (count n v fd) = forward_info fd"
  "jars (count n v fd) = jars fd"
  "cookies (count n v fd) = cookies fd"
  "retrievers_params (count n v fd) = retrievers_params fd"
  "adaptive (count n v fd) = adaptive fd"
  "queue (count n v fd) = queue fd"
  "queue_maxsize (count n v fd) = queue_maxsize fd"
  "backward_worker (count n v fd) = backward_worker fd"
  "forward_worker (count n v fd) = forward_worker fd"
  by (cases d; simp add: count_def)+

lemma sleep_frame [simp]:
  "slept (sleep s fd) = slept fd @ [s]"
  "metrics (sleep s fd) = metrics fd"
  "params_of d (sleep s fd) = params_of d fd"
  "client_of d (sleep s fd) = client_of d fd"
  "backward_params (sleep s fd) = backward_params fd"
  "forward_params (sleep s fd) = forward_params fd"
  "backward_client (sleep s fd) = backward_client fd"
  "forward_client (sleep s fd) = forward_client fd"
  "backward_info (sleep s fd) = backward_info fd"
  "forward_info (sleep s fd) = forward_info fd"
  "jars (sleep s fd) = jars fd"
  "cookies (sleep s fd) = cookies fd"
  "retrievers_params (sleep s fd) = retrievers_params fd"
  "adaptive (sleep s fd) = adaptive fd"
  "queue (sleep s fd) = queue fd"
  "queue_maxsize (sleep s fd) = queue_maxsize fd"
  "backward_worker (sleep s fd) = backward_worker fd"
  "forward_worker (sleep s fd) = forward_worker fd"
  by (cases d; simp add: sleep_def)+

section \<open>One round of the retry loop, by outcome\<close>

lemma get_response_loop_ConnectionError:
  assumes "outcome a = Fail ConnectionError"
  shows "get_response_loop si d (a # upstream) fd =
     (let fd2 = count (direction_name d @ ''_connection_error'') 1 (snd (sync_tenders d a fd)) in
      if si > 300 then (Raised ConnectionError, upstream, fd2)
      else get_response_loop (si * 2) d upstream (sleep (si * 2) fd2))"
proof -
  obtain o1 fd1 where s: "sync_tenders d a fd = (o1, fd1)" by (cases "sync_tenders d a fd")
  then have "o1 = Fail ConnectionError" using assms sync_tenders_fst [of d a fd] by simp
  with s show ?thesis by simp
qed

lemma get_response_loop_429:
  assumes "outcome a = Fail (RequestFailed 429)"
  shows "get_response_loop si d (a # upstream) fd =
     (let fd2 = count (direction_name d @ ''_request_failed'') 1 (snd (sync_tenders d a fd)) in
      if si > 120 then (Raised (RequestFailed 429), upstream, fd2)
      else get_response_loop (si * 2) d upstream (sleep (si * 2) fd2))"
proof -
  obtain o1 fd1 where s: "sync_tenders d a fd = (o1, fd1)" by (cases "sync_tenders d a fd")
  then have "o1 = Fail (RequestFailed 429)" using assms sync_tenders_fst [of d a fd] by simp
  with s show ?thesis by simp
qed


lemma get_response_loop_ResourceNotFound:
  assumes "outcome a = Fail ResourceNotFound"
  shows "get_response_loop si d (a # upstream) fd =
     (let fd2 = count (direction_name d @ ''_resource_not_found'') 1 (snd (sync_tenders d a fd));
          fd3 = fd2\<lparr>jars := (jars fd2)(client_of d fd2 := Map.empty)\<rparr> in
      if params_of d fd3 ''offset'' = None then (Raised (KeyError ''offset''), upstream, fd3)
      else get_response_loop si d upstream
             (set_params d ((params_of d fd3)(''offset'' := None)) fd3))"
proof -
  obtain o1 fd1 where s: "sync_tenders d a fd = (o1, fd1)" by (cases "sync_tenders d a fd")
  then have "o1 = Fail ResourceNotFound" using assms sync_tenders_fst [of d a fd] by simp
  with s show ?thesis by simp
qed

lemma get_response_loop_Ok:
  assumes "outcome a = Ok r"
  shows "get_response_loop si d (a # upstream) fd =
     (Done r, upstream,
      count (direction_name d @ ''_success_requests'') 1
        (latency (direction_name d @ ''_process_request'') (snd (sync_tenders d a fd))))"
proof -
  obtain o1 fd1 where s: "sync_tenders d a fd = (o1, fd1)" by (cases "sync_tenders d a fd")
  then have "o1 = Ok r" using assms sync_tenders_fst [of d a fd] by simp
  with s show ?thesis by simp
qed

declare get_response_loop.simps(2) [simp del]

lemma backoff_run:
  assumes step: "\<And>a si upstream fd. a \<in> set as \<Longrightarrow>
            get_response_loop si d (a # upstream) fd =
              (let fd2 = count name 1 (snd (sync_tenders d a fd)) in
               if si > cap then (Raised e, upstream, fd2)
               else get_response_loop (si * 2) d upstream (sleep (si * 2) fd2))"
    and "0 \<le> si" and "as \<noteq> [] \<longrightarrow> si * 2 ^ (length as - 1) \<le> cap"
  shows "\<exists>fd'. get_response_loop si d (as @ upstream) fd =
               get_response_loop (si * 2 ^ length as) d upstream fd' \<and>
             slept fd' = slept fd @ map (\<lambda>k. si * 2 ^ k) [1..<Suc (length as)] \<and>
             metrics fd' = metrics fd @ replicate (length as) (add_count name 1) \<and>
             params_of d fd' = params_of d fd"
  using assms
proof (induction as arbitrary: si fd)
  case Nil
  show ?case by (rule exI [of _ fd]) simp
next
  case (Cons a as)
  have le: "si \<le> cap"
  proof -
    have "si * 1 \<le> si * 2 ^ (length (a # as) - 1)"
      using Cons.prems(2) by (intro mult_left_mono) auto
    with Cons.prems(3) show ?thesis by simp
  qed
  let ?fd2 = "sleep (si * 2) (count name 1 (snd (sync_tenders d a fd)))"
  have first: "get_response_loop si d ((a # as) @ upstream) fd =
               get_response_loop (si * 2) d (as @ upstream) ?fd2"
    using Cons.prems(1) [of a si "as @ upstream" fd] le by (simp add: Let_def)
  have "as \<noteq> [] \<longrightarrow> (si * 2) * 2 ^ (length as - 1) \<le> cap"
  proof
    assume "as \<noteq> []"
    then obtain n where n: "length as = Suc n" by (cases as) auto
    with Cons.prems(3) show "(si * 2) * 2 ^ (length as - 1) \<le> cap"
      by (simp add: mult.assoc)
  qed
  with Cons.IH [of "si * 2" ?fd2] Cons.prems(1,2)
  obtain fd' where fd':
    "get_response_loop (si * 2) d (as @ upstream) ?fd2 =
       get_response_loop (si * 2 * 2 ^ length as) d upstream fd'"
    "slept fd' = slept ?fd2 @ map (\<lambda>k. si * 2 * 2 ^ k) [1..<Suc (length as)]"
    "metrics fd' = metrics ?fd2 @ replicate (length as) (add_count name 1)"
    "params_of d fd' = params_of d ?fd2"
    by auto
  have m: "map (\<lambda>k. si * 2 ^ k) [1..<Suc (length (a # as))] =
           si * 2 # map (\<lambda>k. si * 2 * 2 ^ k) [1..<Suc (length as)]"
  proof -
    have "[1..<Suc (length (a # as))] = 1 # map Suc [1..<Suc (length as)]"
      by (metis One_nat_def length_Cons map_Suc_upt upt_conv_Cons zero_less_Suc Suc_less_eq)
    then show ?thesis by (simp add: comp_def mult.assoc)
  qed
  show ?case
    apply (rule exI [of _ fd'])
    using first fd' m by (simp add: mult.assoc replicate_app_Cons_same)
qed

lemma connection_error_run:
  assumes "\<forall>a\<in>set as. outcome a = Fail ConnectionError" "0 \<le> si"
    "as \<noteq> [] \<longrightarrow> si * 2 ^ (length as - 1) \<le> 300"
  shows "\<exists>fd'. get_response_loop si d (as @ upstream) fd =
               get_response_loop (si * 2 ^ length as) d upstream fd' \<and>
             slept fd' = slept fd @ map (\<lambda>k. si * 2 ^ k) [1..<Suc (length as)] \<and>
             metrics fd' = metrics fd @
               replicate (length as) (add_count (direction_name d @ ''_connection_error'') 1) \<and>
             params_of d fd' = params_of d fd"
  by (rule backoff_run [where e = ConnectionError])
     (use assms in \<open>simp_all add: get_response_loop_ConnectionError\<close>)

lemma rate_limited_run:
  assumes "\<forall>a\<in>set as. outcome a = Fail (RequestFailed 429)" "0 \<le> si"
    "as \<noteq> [] \<longrightarrow> si * 2 ^ (length as - 1) \<le> 120"
  shows "\<exists>fd'. get_response_loop si d (as @ upstream) fd =
               get_response_loop (si * 2 ^ length as) d upstream fd' \<and>
             slept fd' = slept fd @ map (\<lambda>k. si * 2 ^ k) [1..<Suc (length as)] \<and>
             metrics fd' = metrics fd @
               replicate (length as) (add_count (direction_name d @ ''_request_failed'') 1) \<and>
             params_of d fd' = params_of d fd"
  by (rule backoff_run [where e = "RequestFailed 429"])
     (use assms in \<open>simp_all add: get_response_loop_429\<close>)

lemma pow2_le: "n \<le> m \<Longrightarrow> (2::rat) ^ n \<le> 2 ^ m"
  by (rule power_increasing) simp_all

lemma connection_error_fresh:
  assumes "\<forall>a\<in>set as. outcome a = Fail ConnectionError" "length as \<le> 11"
  shows "\<exists>fd'. get_response d (as @ upstream) fd =
               get_response_loop (2 ^ length as / 5) d upstream fd' \<and>
             slept fd' = slept fd @ map (\<lambda>k. 2 ^ k / 5) [1..<Suc (length as)] \<and>
             metrics fd' = metrics fd @
               replicate (length as) (add_count (direction_name d @ ''_connection_error'') 1) \<and>
             params_of d fd' = params_of d fd"
proof -
  have "as \<noteq> [] \<longrightarrow> (1 / 5 :: rat) * 2 ^ (length as - 1) \<le> 300"
  proof
    assume "as \<noteq> []"
    have "(2::rat) ^ (length as - 1) \<le> 2 ^ 10" using assms(2) by (intro pow2_le) simp
    then show "(1 / 5 :: rat) * 2 ^ (length as - 1) \<le> 300" by simp
  qed
  from connection_error_run [OF assms(1) _ this, of d upstream fd]
  show ?thesis by (simp add: get_response_def)
qed

lemma rate_limited_fresh:
  assumes "\<forall>a\<in>set as. outcome a = Fail (RequestFailed 429)" "length as \<le> 10"
  shows "\<exists>fd'. get_response d (as @ upstream) fd =
               get_response_loop (2 ^ length as / 5) d upstream fd' \<and>
             slept fd' = slept fd @ map (\<lambda>k. 2 ^ k / 5) [1..<Suc (length as)] \<and>
             metrics fd' = metrics fd @
               replicate (length as) (add_count (direction_name d @ ''_request_failed'') 1) \<and>
             params_of d fd' = params_of d fd"
proof -
  have "as \<noteq> [] \<longrightarrow> (1 / 5 :: rat) * 2 ^ (length as - 1) \<le> 120"
  proof
    assume "as \<noteq> []"
    have "(2::rat) ^ (length as - 1) \<le> 2 ^ 9" using assms(2) by (intro pow2_le) simp
    then show "(1 / 5 :: rat) * 2 ^ (length as - 1) \<le> 120" by simp
  qed
  from rate_limited_run [OF assms(1) _ this, of d upstream fd]
  show ?thesis by (simp add: get_response_def)
qed

lemma connection_error_raise:
  assumes "\<forall>a\<in>set as. outcome a = Fail ConnectionError" "length as = 11"
    "outcome a = Fail ConnectionError"
  shows "\<exists>fd'. get_response d (as @ a # upstream) fd = (Raised ConnectionError, upstream, fd') \<and>
             slept fd' = slept fd @ map (\<lambda>k. 2 ^ k / 5) [1..<12]"
proof -
  from connection_error_fresh [OF assms(1), of d "a # upstream" fd] assms(2)
  obtain fd1 where fd1:
    "get_response d (as @ a # upstream) fd = get_response_loop (2 ^ 11 / 5) d (a # upstream) fd1"
    "slept fd1 = slept fd @ map (\<lambda>k. 2 ^ k / 5) [1..<12]"
    by auto
  show ?thesis
    using fd1 by (simp add: get_response_loop_ConnectionError [OF assms(3)] Let_def)
qed

lemma rate_limited_raise:
  assumes "\<forall>a\<in>set as. outcome a = Fail (RequestFailed 429)" "length as = 10"
    "outcome a = Fail (RequestFailed 429)"
  shows "\<exists>fd'. get_response d (as @ a # upstream) fd =
               (Raised (RequestFailed 429), upstream, fd') \<and>
             slept fd' = slept fd @ map (\<lambda>k. 2 ^ k / 5) [1..<11]"
proof -
  from rate_limited_fresh [OF assms(1), of d "a # upstream" fd] assms(2)
  obtain fd1 where fd1:
    "get_response d (as @ a # upstream) fd = get_response_loop (2 ^ 10 / 5) d (a # upstream) fd1"
    "slept fd1 = slept fd @ map (\<lambda>k. 2 ^ k / 5) [1..<11]"
    by auto
  show ?thesis
    using fd1 by (simp add: get_response_loop_429 [OF assms(3)] Let_def)
qed

lemma interval_bound:
  assumes "(2::rat) ^ k / 5 \<le> 300"
  shows "2 ^ k / 5 * 2 \<le> (2048 / 5 :: rat)"
proof -
  have "k \<le> 10"
  proof (rule ccontr)
    assume "\<not> k \<le> 10"
    then have "11 \<le> k" by simp
    then have "(2::rat) ^ 11 \<le> 2 ^ k" by (rule pow2_le)
    with assms show False by simp
  qed
  then have "(2::rat) ^ k \<le> 2 ^ 10" by (rule pow2_le)
  then show ?thesis by simp
qed

lemma get_response_loop_sleeps:
  "\<exists>new. slept (snd (snd (get_response_loop (2 ^ k / 5) d upstream fd))) = slept fd @ new \<and>
         (\<forall>s\<in>set new. s \<le> 2048 / 5)"
proof (induction upstream arbitrary: k fd)
  case Nil
  show ?case by simp
next
  case (Cons a upstream)
  obtain o1 fd1 where s: "sync_tenders d a fd = (o1, fd1)" by (cases "sync_tenders d a fd")
  then have fd1: "slept fd1 = slept fd" using sync_tenders_frame(1) [of d a fd] by simp
  have same: "\<And>fd2::feeder. slept fd2 = slept fd \<Longrightarrow>
     \<exists>new. slept (snd (snd (get_response_loop (2 ^ k / 5) d upstream fd2))) = slept fd @ new \<and>
           (\<forall>s\<in>set new. s \<le> 2048 / 5)"
    using Cons.IH [of k] by metis
  have doubled: "\<And>fd2::feeder. slept fd2 = slept fd \<Longrightarrow> (2::rat) ^ k / 5 \<le> 300 \<Longrightarrow>
     \<exists>new. slept (snd (snd (get_response_loop (2 ^ k / 5 * 2) d upstream
                (sleep (2 ^ k / 5 * 2) fd2)))) = slept fd @ new \<and>
           (\<forall>s\<in>set new. s \<le> 2048 / 5)"
  proof -
    fix fd2 :: feeder assume a: "slept fd2 = slept fd" "(2::rat) ^ k / 5 \<le> 300"
    from Cons.IH [of "Suc k" "sleep (2 ^ k / 5 * 2) fd2"]
    obtain new where new:
      "slept (snd (snd (get_response_loop (2 ^ Suc k / 5) d upstream (sleep (2 ^ k / 5 * 2) fd2))))
         = slept (sleep (2 ^ k / 5 * 2) fd2) @ new" "\<forall>s\<in>set new. s \<le> 2048 / 5"
      by blast
    have eq: "(2::rat) ^ Suc k / 5 = 2 ^ k / 5 * 2" by simp
    show "\<exists>new. slept (snd (snd (get_response_loop (2 ^ k / 5 * 2) d upstream
                (sleep (2 ^ k / 5 * 2) fd2)))) = slept fd @ new \<and>
           (\<forall>s\<in>set new. s \<le> 2048 / 5)"
      apply (rule exI [of _ "(2 ^ k / 5 * 2) # new"])
      using new a interval_bound [OF a(2)] unfolding eq by simp
  qed
  show ?case
  proof (cases o1)
    case (Ok r)
    with s fd1 show ?thesis by (simp add: get_response_loop.simps(2) latency_def count_def)
  next
    case (Fail e)
    show ?thesis
    proof (cases e)
      case PreconditionFailed
      with s Fail fd1 same [of "count (direction_name d @ ''_precondition_failed'') 1 fd1"]
      show ?thesis by (simp add: get_response_loop.simps(2))
    next
      case ConnectionError
      with s Fail fd1 doubled [of "count (direction_name d @ ''_connection_error'') 1 fd1"]
      show ?thesis by (simp add: get_response_loop.simps(2) Let_def)
    next
      case (RequestFailed c)
      with s Fail fd1 doubled [of "count (direction_name d @ ''_request_failed'') 1 fd1"]
        same [of "count (direction_name d @ ''_request_failed'') 1 fd1"]
      show ?thesis by (simp add: get_response_loop.simps(2) Let_def)
    next
      case ResourceNotFound
      let ?fd2 = "count (direction_name d @ ''_resource_not_found'') 1 fd1"
      let ?fd3 = "?fd2\<lparr>jars := (jars ?fd2)(client_of d ?fd2 := Map.empty)\<rparr>"
      have "slept (set_params d ((params_of d ?fd3)(''offset'' := None)) ?fd3) = slept fd"
        using fd1 by (cases d) simp_all
      from same [OF this] s Fail fd1 ResourceNotFound
      show ?thesis by (simp add: get_response_loop.simps(2) Let_def)
    next
      case (KeyError x)
      with s Fail fd1 doubled [of "count (direction_name d @ ''_exception'') 1 fd1"]
      show ?thesis by (simp add: get_response_loop.simps(2) Let_def)
    next
      case (AttributeError x)
      with s Fail fd1 doubled [of "count (direction_name d @ ''_exception'') 1 fd1"]
      show ?thesis by (simp add: get_response_loop.simps(2) Let_def)
    next
      case (Exception x)
      with s Fail fd1 doubled [of "count (direction_name d @ ''_exception'') 1 fd1"]
      show ?thesis by (simp add: get_response_loop.simps(2) Let_def)
    qed
  qed
qed

lemma get_response_sleeps:
  "\<exists>new. slept (snd (snd (get_response d upstream fd))) = slept fd @ new \<and>
         (\<forall>s\<in>set new. s \<le> 2048 / 5)"
  using get_response_loop_sleeps [of 0 d upstream fd] by (simp add: get_response_def)

lemma feeder0_init:
  "ResourceFeeder_init (DEFAULT_API_EXTRA_PARAMS(''limit'' \<mapsto> PStr ''100''))
     DEFAULT_RETRIEVERS_PARAMS True = Inr feeder0"
  by (simp add: ResourceFeeder_init_def feeder0_def DEFAULT_RETRIEVERS_PARAMS_def)

lemma set_offset_frame [simp]:
  "slept (set_offset d off fd) = slept fd"
  "metrics (set_offset d off fd) = metrics fd"
  "client_of d' (set_offset d off fd) = client_of d' fd"
  "jars (set_offset d off fd) = jars fd"
  "cookies (set_offset d off fd) = cookies fd"
  "retrievers_params (set_offset d off fd) = retrievers_params fd"
  "adaptive (set_offset d off fd) = adaptive fd"
  "queue (set_offset d off fd) = queue fd"
  "queue_maxsize (set_offset d off fd) = queue_maxsize fd"
  "backward_worker (set_offset d off fd) = backward_worker fd"
  "forward_worker (set_offset d off fd) = forward_worker fd"
  "params_of d (set_offset d off fd) = (params_of d fd)(''offset'' \<mapsto> PStr off)"
  by (cases d; cases d'; simp add: set_offset_def)+

lemma feeder1_simps:
  "slept feeder1 = []"
  "metrics feeder1 = []"
  "queue feeder1 = []"
  "queue_maxsize feeder1 = 101"
  "adaptive feeder1 = True"
  "retrievers_params feeder1 = DEFAULT_RETRIEVERS_PARAMS"
  "backward_params feeder1 ''offset'' = Some (PStr ''next0'')"
  "forward_params feeder1 ''offset'' = Some (PStr ''prev0'')"
  "backward_params feeder1 ''limit'' = Some (PStr ''100'')"
  "forward_params feeder1 ''limit'' = Some (PStr ''100'')"
  "cookies feeder1 = 1" "backward_client feeder1 = 1" "forward_client feeder1 = 1"
  "jars feeder1 1 = Map.empty"
  "backward_worker feeder1 = Some Running" "forward_worker feeder1 = Some Running"
  by (simp_all add: feeder1_def page_def feeder0_def init_api_clients_def sync_tenders_def
        Let_def set_offset_def DEFAULT_API_EXTRA_PARAMS_def map_add_def)

lemma set_params_frame [simp]:
  "params_of d (set_params d p fd) = p"
  "slept (set_params d p fd) = slept fd"
  "metrics (set_params d p fd) = metrics fd"
  "client_of d' (set_params d p fd) = client_of d' fd"
  "jars (set_params d p fd) = jars fd"
  "cookies (set_params d p fd) = cookies fd"
  "retrievers_params (set_params d p fd) = retrievers_params fd"
  "queue (set_params d p fd) = queue fd"
  by (cases d; cases d'; simp)+

lemma jars_update_frame [simp]:
  "params_of d (fd\<lparr>jars := j\<rparr>) = params_of d fd"
  "client_of d (fd\<lparr>jars := j\<rparr>) = client_of d fd"
  by (cases d; simp)+


lemma two_resource_not_found:
  assumes "outcome a1 = Fail ResourceNotFound" "outcome a2 = Fail ResourceNotFound"
  shows "fst (get_response_loop si d (a1 # a2 # upstream) fd) = Raised (KeyError ''offset'')"
    and "params_of d fd ''offset'' \<noteq> None \<Longrightarrow>
         \<exists>fd'. get_response_loop si d (a1 # a2 # upstream) fd =
                 (Raised (KeyError ''offset''), upstream, fd') \<and>
               slept fd' = slept fd \<and> params_of d fd' ''offset'' = None"
proof -
  show "fst (get_response_loop si d (a1 # a2 # upstream) fd) = Raised (KeyError ''offset'')"
    by (simp add: get_response_loop_ResourceNotFound [OF assms(1)]
          get_response_loop_ResourceNotFound [OF assms(2)] Let_def)
  assume "params_of d fd ''offset'' \<noteq> None"
  then show "\<exists>fd'. get_response_loop si d (a1 # a2 # upstream) fd =
                 (Raised (KeyError ''offset''), upstream, fd') \<and>
               slept fd' = slept fd \<and> params_of d fd' ''offset'' = None"
    by (simp add: get_response_loop_ResourceNotFound [OF assms(1)]
          get_response_loop_ResourceNotFound [OF assms(2)] Let_def)
qed


section \<open>Frames and invariants of the loops\<close>

lemma latency_frame [simp]:
  "slept (latency n fd) = slept fd"
  "metrics (latency n fd) = metrics fd @ [add_latency n]"
  "params_of d (latency n fd) = params_of d fd"
  "client_of d (latency n fd) = client_of d fd"
  "backward_params (latency n fd) = backward_params fd"
  "forward_params (latency n fd) = forward_params fd"
  "jars (latency n fd) = jars fd"
  "cookies (latency n fd) = cookies fd"
  "retrievers_params (latency n fd) = retrievers_params fd"
  "adaptive (latency n fd) = adaptive fd"
  "queue (latency n fd) = queue fd"
  "queue_maxsize (latency n fd) = queue_maxsize fd"
  "requests (latency n fd) = requests fd"
  "backward_worker (latency n fd) = backward_worker fd"
  "forward_worker (latency n fd) = forward_worker fd"
  by (cases d; simp add: latency_def)+

lemma dimension_frame [simp]:
  "slept (dimension n v fd) = slept fd"
  "metrics (dimension n v fd) = metrics fd @ [set_dimension n v]"
  "params_of d (dimension n v fd) = params_of d fd"
  "client_of d (dimension n v fd) = client_of d fd"
  "backward_params (dimension n v fd) = backward_params fd"
  "forward_params (dimension n v fd) = forward_params fd"
  "backward_info (dimension n v fd) = backward_info fd"
  "forward_info (dimension n v fd) = forward_info fd"
  "jars (dimension n v fd) = jars fd"
  "cookies (dimension n v fd) = cookies fd"
  "retrievers_params (dimension n v fd) = retrievers_params fd"
  "adaptive (dimension n v fd) = adaptive fd"
  "queue (dimension n v fd) = queue fd"
  "queue_maxsize (dimension n v fd) = queue_maxsize fd"
  "requests (dimension n v fd) = requests fd"
  "backward_worker (dimension n v fd) = backward_worker fd"
  "forward_worker (dimension n v fd) = forward_worker fd"
  by (cases d; simp add: dimension_def)+

lemma more_frames [simp]:
  "requests (count n v fd) = requests fd"
  "requests (sleep s fd) = requests fd"
  "requests (set_offset d off fd) = requests fd"
  "requests (set_params d p fd) = requests fd"
  "adaptive (set_params d p fd) = adaptive fd"
  "queue_maxsize (set_params d p fd) = queue_maxsize fd"
  "backward_worker (set_params d p fd) = backward_worker fd"
  "forward_worker (set_params d p fd) = forward_worker fd"
  "requests (snd (sync_tenders d a fd)) = requests fd @ [(d, params_of d fd)]"
  by (cases d; simp add: count_def sleep_def set_offset_def sync_tenders_def Let_def
        split: session_effect.splits)+

text \<open>A projection of the state that no step of the retry loop changes\<close>

lemma get_response_loop_preserves:
  fixes f :: "feeder \<Rightarrow> 'a"
  assumes "\<And>fd a. f (snd (sync_tenders d a fd)) = f fd"
    and "\<And>fd n v. f (count n v fd) = f fd"
    and "\<And>fd n. f (latency n fd) = f fd"
    and "\<And>fd s. f (sleep s fd) = f fd"
    and "\<And>fd j. f (fd\<lparr>jars := j\<rparr>) = f fd"
    and "\<And>fd p. f (set_params d p fd) = f fd"
  shows "f (snd (snd (get_response_loop si d upstream fd))) = f fd"
proof (induction upstream arbitrary: si fd)
  case Nil
  show ?case by simp
next
  case (Cons a upstream)
  obtain o1 fd1 where s: "sync_tenders d a fd = (o1, fd1)" by (cases "sync_tenders d a fd")
  then have fd1: "f fd1 = f fd" using assms(1) [of a fd] by simp
  show ?case
  proof (cases o1)
    case (Ok r)
    with s fd1 show ?thesis by (simp add: get_response_loop.simps(2) assms)
  next
    case (Fail e)
    with s fd1 show ?thesis
      by (cases e) (simp_all add: get_response_loop.simps(2) Let_def assms Cons.IH)
  qed
qed

lemma get_response_frame:
  "retrievers_params (snd (snd (get_response d upstream fd))) = retrievers_params fd"
  "adaptive (snd (snd (get_response d upstream fd))) = adaptive fd"
  "queue (snd (snd (get_response d upstream fd))) = queue fd"
  "queue_maxsize (snd (snd (get_response d upstream fd))) = queue_maxsize fd"
  "cookies (snd (snd (get_response d upstream fd))) = cookies fd"
  "backward_worker (snd (snd (get_response d upstream fd))) = backward_worker fd"
  "forward_worker (snd (snd (get_response d upstream fd))) = forward_worker fd"
  unfolding get_response_def
  by (rule get_response_loop_preserves; simp)+

lemma get_response_frame':
  assumes "get_response d upstream fd = (r, upstream', fd')"
  shows "retrievers_params fd' = retrievers_params fd" "adaptive fd' = adaptive fd"
    "queue fd' = queue fd" "queue_maxsize fd' = queue_maxsize fd" "cookies fd' = cookies fd"
    "backward_worker fd' = backward_worker fd" "forward_worker fd' = forward_worker fd"
  using get_response_frame [of d upstream fd] assms by simp_all

lemma handle_response_data_frame:
  "retrievers_params (snd (handle_response_data ts fd)) = retrievers_params fd"
  "adaptive (snd (handle_response_data ts fd)) = adaptive fd"
  "queue_maxsize (snd (handle_response_data ts fd)) = queue_maxsize fd"
  "requests (snd (handle_response_data ts fd)) = requests fd"
  "backward_worker (snd (handle_response_data ts fd)) = backward_worker fd"
  "forward_worker (snd (handle_response_data ts fd)) = forward_worker fd"
  by (induction ts arbitrary: fd; simp add: put_def split: option.splits; fail)+

lemma forward_data_loop_preserves:
  assumes body: "\<And>r up fd. Q fd \<Longrightarrow> Q (snd (snd (forward_data_body r up fd)))"
  shows "Q fd \<Longrightarrow> Q (snd (snd (forward_data_loop response upstream fd)))"
proof (induction "length upstream" arbitrary: response upstream fd rule: less_induct)
  case less
  show ?case
  proof (cases "data response = []")
    case True
    with less.prems show ?thesis by (simp add: forward_data_loop.simps)
  next
    case False
    obtain r1 u1 fd1 where b: "forward_data_body response upstream fd = (r1, u1, fd1)"
      by (cases "forward_data_body response upstream fd")
    with body [OF less.prems, of response upstream] have q: "Q fd1" by simp
    show ?thesis
    proof (cases r1)
      case (Done response')
      with b have "length u1 < length upstream" by (auto dest: forward_data_body_length)
      from less.hyps [OF this q, of response'] False b Done show ?thesis
        by (subst forward_data_loop.simps) simp
    qed (use False b q in \<open>simp_all add: forward_data_loop.simps\<close>)
  qed
qed

lemma backward_loop_preserves:
  assumes body: "\<And>r up fd. Q fd \<Longrightarrow> Q (snd (snd (backward_body r up fd)))"
    and finish: "\<And>fd. Q fd \<Longrightarrow> Q (fd\<lparr>backward_info := Some FINISHED\<rparr>)"
  shows "Q fd \<Longrightarrow> Q (snd (snd (backward_loop response upstream fd)))"
proof (induction "length upstream" arbitrary: response upstream fd rule: less_induct)
  case less
  show ?case
  proof (cases "data response = []")
    case True
    with less.prems finish show ?thesis by (simp add: backward_loop.simps)
  next
    case False
    obtain r1 u1 fd1 where b: "backward_body response upstream fd = (r1, u1, fd1)"
      by (cases "backward_body response upstream fd")
    with body [OF less.prems, of response upstream] have q: "Q fd1" by simp
    show ?thesis
    proof (cases r1)
      case (Done response')
      with b have "length u1 < length upstream" by (auto dest: backward_body_length)
      from less.hyps [OF this q, of response'] False b Done show ?thesis
        by (subst backward_loop.simps) simp
    qed (use False b q in \<open>simp_all add: backward_loop.simps\<close>)
  qed
qed

lemma forward_loop_preserves:
  assumes body: "\<And>r up fd. Q fd \<Longrightarrow> Q (snd (snd (forward_body r up fd)))"
  shows "Q fd \<Longrightarrow> Q (snd (snd (forward_loop response upstream fd)))"
proof (induction "length upstream" arbitrary: response upstream fd rule: less_induct)
  case less
  obtain r1 u1 fd1 where b: "forward_body response upstream fd = (r1, u1, fd1)"
    by (cases "forward_body response upstream fd")
  with body [OF less.prems, of response upstream] have q: "Q fd1" by simp
  show ?case
  proof (cases r1)
    case (Done response')
    with b have "length u1 < length upstream" by (auto dest: forward_body_length)
    from less.hyps [OF this q, of response'] b Done show ?thesis
      by (subst forward_loop.simps) simp
  qed (use b q in \<open>simp_all add: forward_loop.simps\<close>)
qed

lemma forward_data_body_config:
  "retrievers_params (snd (snd (forward_data_body r up fd))) = retrievers_params fd \<and>
   adaptive (snd (snd (forward_data_body r up fd))) = adaptive fd"
proof -
  obtain h fd1 where h: "handle_response_data (data r) (fd\<lparr>forward_info := Some PROCESS_DATA\<rparr>) = (h, fd1)"
    by (cases "handle_response_data (data r) (fd\<lparr>forward_info := Some PROCESS_DATA\<rparr>)")
  with handle_response_data_frame(1,2) [of "data r" "fd\<lparr>forward_info := Some PROCESS_DATA\<rparr>"]
  have fd1: "retrievers_params fd1 = retrievers_params fd" "adaptive fd1 = adaptive fd" by simp_all
  let ?fd2 = "set_offset Forward (next_page_offset r) fd1"
  obtain g up' fd3 where g: "get_response Forward up (?fd2\<lparr>forward_info := Some PROCESS_REQUEST\<rparr>) = (g, up', fd3)"
    by (cases "get_response Forward up (?fd2\<lparr>forward_info := Some PROCESS_REQUEST\<rparr>)")
  from get_response_frame'(1,2) [OF g] fd1
  have fd3: "retrievers_params fd3 = retrievers_params fd" "adaptive fd3 = adaptive fd" by simp_all
  show ?thesis
    unfolding forward_data_body_def using h g fd1 fd3
    by (auto simp: Let_def split: run.splits option.splits)
qed

lemma forward_data_loop_config:
  "retrievers_params (snd (snd (forward_data_loop r up fd))) = retrievers_params fd \<and>
   adaptive (snd (snd (forward_data_loop r up fd))) = adaptive fd"
  by (rule forward_data_loop_preserves
        [where Q = "\<lambda>fd'. retrievers_params fd' = retrievers_params fd \<and> adaptive fd' = adaptive fd"])
     (simp_all add: forward_data_body_config)






lemma handle_response_data_room:
  "queue_maxsize fd \<le> 0 \<or> of_nat (length (queue fd)) + of_nat (length ts) \<le> queue_maxsize fd \<Longrightarrow>
   handle_response_data ts fd = (Done (), fd\<lparr>queue := queue fd @ ts\<rparr>)"
proof (induction ts arbitrary: fd)
  case Nil
  show ?case by simp
next
  case (Cons t ts)
  let ?fd = "fd\<lparr>queue := queue fd @ [t]\<rparr>"
  from Cons.prems have p: "put t fd = Some ?fd" by (auto simp: put_def)
  from Cons.prems have
    "queue_maxsize ?fd \<le> 0 \<or> of_nat (length (queue ?fd)) + of_nat (length ts) \<le> queue_maxsize ?fd"
    by auto
  from Cons.IH [OF this] p show ?case by simp
qed

lemma handle_response_data_queue:
  "handle_response_data ts fd = (r, fd') \<Longrightarrow>
   fd' = fd\<lparr>queue := queue fd'\<rparr> \<and>
   (case r of
      Done u \<Rightarrow> queue fd' = queue fd @ ts
    | Blocked p \<Rightarrow> queue fd' @ p = queue fd @ ts \<and> p \<noteq> [] \<and> 0 < queue_maxsize fd \<and>
                    queue_maxsize fd \<le> of_nat (length (queue fd'))
    | _ \<Rightarrow> False)"
proof (induction ts arbitrary: fd)
  case Nil
  then show ?case by auto
next
  case (Cons t ts)
  show ?case
  proof (cases "put t fd")
    case None
    with Cons.prems show ?thesis by (auto simp: put_def split: if_splits)
  next
    case (Some fd1)
    then have fd1: "fd1 = fd\<lparr>queue := queue fd @ [t]\<rparr>" by (auto simp: put_def split: if_splits)
    from Some Cons.prems have "handle_response_data ts fd1 = (r, fd')" by simp
    from Cons.IH [OF this] show ?thesis unfolding fd1 by (cases r) auto
  qed
qed

lemma handle_response_data_bounded:
  assumes "0 < n" "queue_bounded n fd"
  shows "queue_bounded n (snd (handle_response_data ts fd))"
  using assms
proof (induction ts arbitrary: fd)
  case Nil
  then show ?case by simp
next
  case (Cons t ts)
  show ?case
  proof (cases "put t fd")
    case None
    with Cons.prems show ?thesis by simp
  next
    case (Some fd1)
    from Cons.prems have m: "queue_maxsize fd = of_int n" by (simp add: queue_bounded_def)
    from Some m Cons.prems(1) have fd1: "fd1 = fd\<lparr>queue := queue fd @ [t]\<rparr>"
      and lt: "(of_nat (length (queue fd)) :: rat) < of_int n"
      by (auto simp: put_def split: if_splits)
    have "(of_nat (length (queue fd)) :: rat) = of_int (int (length (queue fd)))" by simp
    with lt have "int (length (queue fd)) < n" by (simp only: of_int_less_iff)
    with m fd1 have "queue_bounded n fd1" by (simp add: queue_bounded_def)
    from Cons.IH [OF Cons.prems(1) this] Some show ?thesis by simp
  qed
qed

lemma sync_tenders_InPlace:
  assumes "effect a = InPlace cs"
  shows "client_of d' (snd (sync_tenders d a fd)) = client_of d' fd"
    "backward_client (snd (sync_tenders d a fd)) = backward_client fd"
    "forward_client (snd (sync_tenders d a fd)) = forward_client fd"
    "jars (snd (sync_tenders d a fd)) =
       (jars fd)(client_of d fd := jars fd (client_of d fd) ++ map_of cs)"
  using assms by (cases d'; simp add: sync_tenders_def Let_def)+

lemma mismatch_frame [simp]:
  "mismatch d (count n v fd) = mismatch d fd"
  "mismatch d (dimension n w fd) = mismatch d fd"
  "mismatch d (latency n fd) = mismatch d fd"
  "mismatch d (sleep s fd) = mismatch d fd"
  by (simp_all add: mismatch_def)

lemma info_frames [simp]:
  "forward_info (latency n fd) = forward_info fd"
  "backward_info (latency n fd) = backward_info fd"
  "forward_info (snd (sync_tenders d a fd)) = forward_info fd"
  "backward_info (snd (sync_tenders d a fd)) = backward_info fd"
  "forward_client (dimension n w fd) = forward_client fd"
  "backward_client (dimension n w fd) = backward_client fd"
  "forward_client (latency n fd) = forward_client fd"
  "backward_client (latency n fd) = backward_client fd"
  "jar_count (count n v fd) = jar_count fd"
  "jar_count (latency n fd) = jar_count fd"
  "jar_count (dimension n w fd) = jar_count fd"
  "jar_count (sleep s fd) = jar_count fd"
  by (cases d; simp add: latency_def count_def dimension_def sleep_def sync_tenders_def Let_def
        split: session_effect.splits)+


section \<open>Runs of the forward retriever\<close>

lemma get_response_first_Ok:
  assumes "outcome a = Ok r" "get_response d (a # up) fd = (Done r', up', fd')"
  shows "r' = r \<and> up' = up"
  using assms by (simp add: get_response_def get_response_loop_Ok)

lemma forward_data_loop_not_Done:
  assumes "\<forall>a\<in>set up. \<exists>r. outcome a = Ok r \<and> data r \<noteq> []" "data r \<noteq> []"
  shows "fst (forward_data_loop r up fd) \<noteq> Done x"
  using assms
proof (induction "length up" arbitrary: r up fd rule: less_induct)
  case less
  obtain r1 u1 fd1 where b: "forward_data_body r up fd = (r1, u1, fd1)"
    by (cases "forward_data_body r up fd")
  show ?case
  proof (cases r1)
    case (Done r')
    from b Done obtain fdx fd3 where g: "get_response Forward up fdx = (Done r', u1, fd3)"
      unfolding forward_data_body_def
      by (auto simp: Let_def split: prod.splits run.splits option.splits if_splits)
    then obtain a where up: "up = a # u1" and a: "outcome a = Ok r'"
    proof (cases up)
      case Nil
      with g show ?thesis by (simp add: get_response_def)
    next
      case (Cons a list)
      with less.prems(1) obtain ra where "outcome a = Ok ra" by auto
      with g Cons get_response_first_Ok [of a ra Forward list fdx r' u1 fd3] that
      show ?thesis by auto
    qed
    from up a less.prems(1) have ne: "data r' \<noteq> []" by auto
    from up less.prems(1) have rest: "\<forall>a\<in>set u1. \<exists>r. outcome a = Ok r \<and> data r \<noteq> []" by auto
    from up have "length u1 < length up" by simp
    from less.hyps [OF this rest ne, of fd1] b Done less.prems(2)
    show ?thesis by (subst forward_data_loop.simps) simp
  qed (use b less.prems(2) in \<open>simp_all add: forward_data_loop.simps\<close>)
qed

lemma retriever_forward_nonempty_pages:
  assumes "\<forall>a\<in>set up. \<exists>r. outcome a = Ok r \<and> data r \<noteq> []"
  shows "retrievers_params (snd (snd (retriever_forward up fd))) = retrievers_params fd"
proof -
  obtain g up1 fd1 where g: "get_response Forward up (fd\<lparr>forward_info := Some PROCESS_REQUEST\<rparr>) = (g, up1, fd1)"
    by (cases "get_response Forward up (fd\<lparr>forward_info := Some PROCESS_REQUEST\<rparr>)")
  from get_response_frame'(1) [OF g] have fd1: "retrievers_params fd1 = retrievers_params fd"
    by simp
  show ?thesis
  proof (cases g)
    case (Done r)
    let ?fd2 = "count ''forward_resource_count'' (int (length (data r)))
                  (dimension ''forward_last_response'' None fd1)"
    from g Done obtain a where up: "up = a # up1" and a: "outcome a = Ok r"
    proof (cases up)
      case Nil
      with g Done show ?thesis by (simp add: get_response_def)
    next
      case (Cons a list)
      with assms obtain ra where "outcome a = Ok ra" by auto
      with g Done Cons that
        get_response_first_Ok [of a ra Forward list "fd\<lparr>forward_info := Some PROCESS_REQUEST\<rparr>" r up1 fd1]
      show ?thesis by auto
    qed
    from up a assms have ne: "data r \<noteq> []"
      and rest: "\<forall>a\<in>set up1. \<exists>r. outcome a = Ok r \<and> data r \<noteq> []" by auto
    obtain l up2 fd3 where l: "forward_data_loop r up1 ?fd2 = (l, up2, fd3)"
      by (cases "forward_data_loop r up1 ?fd2")
    from forward_data_loop_not_Done [OF rest ne, of ?fd2] l have nd: "\<And>x. l \<noteq> Done x" by simp
    from forward_data_loop_config [of r up1 ?fd2] l fd1
    have fd3: "retrievers_params fd3 = retrievers_params fd" by simp
    have "forward_body r up1 ?fd2 = (abort l, up2, fd3)"
    proof (cases l)
      case (Done x)
      with nd show ?thesis by blast
    qed (use l in \<open>simp_all add: forward_body_def\<close>)
    moreover have "(abort (abort l :: response run) :: int run) = abort l"
      by (cases l) simp_all
    moreover have "(case (abort l :: response run) of Done x \<Rightarrow> True | _ \<Rightarrow> False) = False"
      by (cases l) simp_all
    ultimately have "snd (snd (forward_loop r up1 ?fd2)) = fd3"
      by (subst forward_loop.simps) (simp split: run.splits)
    with g Done fd1 fd3 show ?thesis
      unfolding retriever_forward_def by (simp add: Let_def)
  qed (use g fd1 in \<open>simp_all add: retriever_forward_def\<close>)
qed

lemma forward_data_body_page:
  assumes a: "effect a = InPlace cs" "outcome a = Ok r'"
    and c: "cookies fd = forward_client fd"
    and l: "forward_params fd ''limit'' \<noteq> None"
    and room: "queue_maxsize fd \<le> 0 \<or>
               of_nat (length (queue fd)) + of_nat (length (data r)) \<le> queue_maxsize fd"
  shows "\<exists>fd'. forward_data_body r (a # up) fd = (Done r', up, fd') \<and>
           queue fd' = queue fd @ data r \<and> queue_maxsize fd' = queue_maxsize fd \<and>
           cookies fd' = forward_client fd' \<and> forward_params fd' ''limit'' \<noteq> None \<and>
           retrievers_params fd' = retrievers_params fd \<and>
           requests fd' = requests fd @
             [(Forward, (forward_params fd)(''offset'' \<mapsto> PStr (next_page_offset r)))]"
proof -
  let ?fd0 = "fd\<lparr>forward_info := Some PROCESS_DATA\<rparr>"
  let ?fd1 = "?fd0\<lparr>queue := queue ?fd0 @ data r\<rparr>"
  let ?fd2 = "set_offset Forward (next_page_offset r) ?fd1"
  let ?fd2' = "?fd2\<lparr>forward_info := Some PROCESS_REQUEST\<rparr>"
  have h: "handle_response_data (data r) ?fd0 = (Done (), ?fd1)"
    by (rule handle_response_data_room) (use room in simp)
  have lg: "log_retriever_state Forward ?fd2 = None"
    using l by (simp add: log_retriever_state_def set_offset_def)
  have ck: "cookies ?fd2' = client_of Forward ?fd2'" using c by (simp add: set_offset_def)
  define fd3 where "fd3 = count (direction_name Forward @ ''_success_requests'') 1
     (latency (direction_name Forward @ ''_process_request'') (snd (sync_tenders Forward a ?fd2')))"
  have fd3:
    "get_response Forward (a # up) ?fd2' = (Done r', up, fd3)"
    "requests fd3 = requests ?fd2' @ [(Forward, params_of Forward ?fd2')]"
    "\<And>d'. params_of d' fd3 = params_of d' ?fd2'" "\<And>d'. client_of d' fd3 = client_of d' ?fd2'"
    "\<not> mismatch Forward fd3"
    unfolding fd3_def
    using ck by (simp_all add: get_response_def get_response_loop_Ok [OF a(2)]
        sync_tenders_InPlace [OF a(1)] mismatch_def del: direction_name.simps)
  note fr = get_response_frame' [OF fd3(1)]
  let ?fd4 = "count ''forward_resource_count'' (int (length (data r')))
                (dimension ''forward_last_response'' None fd3)"
  let ?fd5 = "if length (data r') \<noteq> 0
              then sleep (get_sleep ?fd4 ''up_requests_sleep'' 1) (?fd4\<lparr>forward_info := Some SLEEP\<rparr>)
              else ?fd4"
  have body: "forward_data_body r (a # up) fd = (Done r', up, ?fd5)"
    unfolding forward_data_body_def using h lg fd3(1,5) by (simp add: Let_def)
  have "queue ?fd5 = queue fd @ data r" using fr(3) by (simp add: set_offset_def)
  moreover have "queue_maxsize ?fd5 = queue_maxsize fd" using fr(4) by (simp add: set_offset_def)
  moreover have "cookies ?fd5 = forward_client ?fd5"
    using fr(5) fd3(4) [of Forward] c by (simp add: set_offset_def)
  moreover have "forward_params ?fd5 ''limit'' \<noteq> None"
    using fd3(3) [of Forward] l by (simp add: set_offset_def)
  moreover have "retrievers_params ?fd5 = retrievers_params fd"
    using fr(1) by (simp add: set_offset_def)
  moreover have "requests ?fd5 = requests fd @
             [(Forward, (forward_params fd)(''offset'' \<mapsto> PStr (next_page_offset r)))]"
    using fd3(2) by (simp add: set_offset_def)
  ultimately show ?thesis using body by blast
qed

lemma forward_data_loop_pages:
  assumes "\<forall>a\<in>set up. \<exists>cs r. effect a = InPlace cs \<and> outcome a = Ok r \<and> data r \<noteq> []"
    and "data r \<noteq> []"
    and "cookies fd = forward_client fd"
    and "forward_params fd ''limit'' \<noteq> None"
    and "queue_maxsize fd \<le> 0 \<or>
         of_nat (length (queue fd)) + of_nat (length (data r)) +
           of_nat (length (concat (map page_items up))) \<le> queue_maxsize fd"
  shows "\<exists>fd'. forward_data_loop r up fd = (Pending, [], fd') \<and>
           queue fd' = queue fd @ data r @ concat (map page_items up) \<and>
           length (requests fd') = length (requests fd) + length up \<and>
           retrievers_params fd' = retrievers_params fd"
  using assms
proof (induction up arbitrary: r fd)
  case Nil
  let ?fd0 = "fd\<lparr>forward_info := Some PROCESS_DATA\<rparr>"
  let ?fd1 = "?fd0\<lparr>queue := queue ?fd0 @ data r\<rparr>"
  let ?fd2 = "set_offset Forward (next_page_offset r) ?fd1"
  have h: "handle_response_data (data r) ?fd0 = (Done (), ?fd1)"
    by (rule handle_response_data_room) (use Nil.prems in simp)
  have lg: "log_retriever_state Forward ?fd2 = None"
    using Nil.prems by (simp add: log_retriever_state_def set_offset_def)
  have "forward_data_body r [] fd = (Pending, [], ?fd2\<lparr>forward_info := Some PROCESS_REQUEST\<rparr>)"
    unfolding forward_data_body_def using h lg by (simp add: Let_def get_response_def)
  with Nil.prems(2) show ?case
    by (subst forward_data_loop.simps) (simp add: set_offset_def)
next
  case (Cons a up)
  then obtain cs r' where a: "effect a = InPlace cs" "outcome a = Ok r'" "data r' \<noteq> []"
    by auto
  have items: "page_items a = data r'" using a by (simp add: page_items_def)
  from Cons.prems(5) have room: "queue_maxsize fd \<le> 0 \<or>
               of_nat (length (queue fd)) + of_nat (length (data r)) \<le> queue_maxsize fd"
    by auto
  from forward_data_body_page [OF a(1,2) Cons.prems(3,4) room, of up]
  obtain fd1 where fd1:
    "forward_data_body r (a # up) fd = (Done r', up, fd1)"
    "queue fd1 = queue fd @ data r" "queue_maxsize fd1 = queue_maxsize fd"
    "cookies fd1 = forward_client fd1" "forward_params fd1 ''limit'' \<noteq> None"
    "retrievers_params fd1 = retrievers_params fd"
    "requests fd1 = requests fd @
       [(Forward, (forward_params fd)(''offset'' \<mapsto> PStr (next_page_offset r)))]"
    by blast
  have room1: "queue_maxsize fd1 \<le> 0 \<or>
         of_nat (length (queue fd1)) + of_nat (length (data r')) +
           of_nat (length (concat (map page_items up))) \<le> queue_maxsize fd1"
    using Cons.prems(5) fd1(2,3) items by auto
  have rest: "\<forall>a\<in>set up. \<exists>cs r. effect a = InPlace cs \<and> outcome a = Ok r \<and> data r \<noteq> []"
    using Cons.prems(1) by simp
  from Cons.IH [OF rest a(3) fd1(4,5) room1]
  obtain fd' where fd':
    "forward_data_loop r' up fd1 = (Pending, [], fd')"
    "queue fd' = queue fd1 @ data r' @ concat (map page_items up)"
    "length (requests fd') = length (requests fd1) + length up"
    "retrievers_params fd' = retrievers_params fd1"
    by blast
  have "forward_data_loop r (a # up) fd = (Pending, [], fd')"
    using Cons.prems(2) fd1(1) fd'(1) by (subst forward_data_loop.simps) simp
  with fd' fd1 items show ?case by simp
qed

lemma retriever_forward_pages:
  assumes "\<forall>a\<in>set (a0 # up). \<exists>cs r. effect a = InPlace cs \<and> outcome a = Ok r \<and> data r \<noteq> []"
    and "cookies fd = forward_client fd"
    and "forward_params fd ''limit'' \<noteq> None"
    and "queue_maxsize fd \<le> 0 \<or>
         of_nat (length (queue fd)) + of_nat (length (concat (map page_items (a0 # up))))
           \<le> queue_maxsize fd"
  shows "\<exists>fd'. retriever_forward (a0 # up) fd = (Pending, [], fd') \<and>
           queue fd' = queue fd @ concat (map page_items (a0 # up)) \<and>
           length (requests fd') = length (requests fd) + Suc (length up) \<and>
           retrievers_params fd' = retrievers_params fd"
proof -
  from assms(1) obtain cs r where a: "effect a0 = InPlace cs" "outcome a0 = Ok r" "data r \<noteq> []"
    by auto
  have items: "page_items a0 = data r" using a by (simp add: page_items_def)
  let ?fd0 = "fd\<lparr>forward_info := Some PROCESS_REQUEST\<rparr>"
  have ck: "cookies ?fd0 = client_of Forward ?fd0" using assms(2) by simp
  define fd1 where "fd1 = count (direction_name Forward @ ''_success_requests'') 1
     (latency (direction_name Forward @ ''_process_request'') (snd (sync_tenders Forward a0 ?fd0)))"
  have fd1:
    "get_response Forward (a0 # up) ?fd0 = (Done r, up, fd1)"
    "requests fd1 = requests ?fd0 @ [(Forward, params_of Forward ?fd0)]"
    "\<And>d'. params_of d' fd1 = params_of d' ?fd0" "\<And>d'. client_of d' fd1 = client_of d' ?fd0"
    "\<not> mismatch Forward fd1"
    unfolding fd1_def
    using ck by (simp_all add: get_response_def get_response_loop_Ok [OF a(2)]
        sync_tenders_InPlace [OF a(1)] mismatch_def del: direction_name.simps)
  note fr = get_response_frame' [OF fd1(1)]
  let ?fd2 = "count ''forward_resource_count'' (int (length (data r)))
                (dimension ''forward_last_response'' None fd1)"
  have rest: "\<forall>a\<in>set up. \<exists>cs r. effect a = InPlace cs \<and> outcome a = Ok r \<and> data r \<noteq> []"
    using assms(1) by simp
  have c2: "cookies ?fd2 = forward_client ?fd2" using fr(5) fd1(4) [of Forward] assms(2) by simp
  have l2: "forward_params ?fd2 ''limit'' \<noteq> None" using fd1(3) [of Forward] assms(3) by simp
  have room2: "queue_maxsize ?fd2 \<le> 0 \<or>
         of_nat (length (queue ?fd2)) + of_nat (length (data r)) +
           of_nat (length (concat (map page_items up))) \<le> queue_maxsize ?fd2"
    using assms(4) fr(3,4) items by auto
  from forward_data_loop_pages [OF rest a(3) c2 l2 room2]
  obtain fd' where fd':
    "forward_data_loop r up ?fd2 = (Pending, [], fd')"
    "queue fd' = queue ?fd2 @ data r @ concat (map page_items up)"
    "length (requests fd') = length (requests ?fd2) + length up"
    "retrievers_params fd' = retrievers_params ?fd2"
    by blast
  have "forward_body r up ?fd2 = (Pending, [], fd')"
    unfolding forward_body_def using fd'(1) by simp
  then have "forward_loop r up ?fd2 = (Pending, [], fd')"
    by (subst forward_loop.simps) simp
  then have "retriever_forward (a0 # up) fd = (Pending, [], fd')"
    unfolding retriever_forward_def using fd1(1,5) by (simp add: Let_def)
  with fd' fd1(2) fr items show ?thesis by simp
qed

lemma forward_body_adjusts:
  assumes ad: "adaptive fd" and dl: "forward_data_loop r up fd = (Done r1, up1, fd1)"
    and lim: "forward_params fd1 ''limit'' \<noteq> None"
    and g: "fst (get_response Forward up1
                  ((set_offset Forward (next_page_offset r1)
                      (sleep (get_sleep fd1 ''up_wait_sleep'' 30)
                         (fd1\<lparr>forward_info := Some SLEEP\<rparr>)))
                   \<lparr>forward_info := Some PROCESS_REQUEST\<rparr>)) = Done r2"
    and w: "retrievers_params fd ''up_wait_sleep'' = Some w"
    and m: "retrievers_params fd ''up_wait_sleep_min'' = Some m"
  shows "retrievers_params (snd (snd (forward_body r up fd))) ''up_wait_sleep'' =
           Some (if data r2 \<noteq> [] then (if w > m then w - 1 else w)
                 else (if w < 30 then w + 1 else w))"
proof -
  let ?fd3 = "set_offset Forward (next_page_offset r1)
                (sleep (get_sleep fd1 ''up_wait_sleep'' 30) (fd1\<lparr>forward_info := Some SLEEP\<rparr>))"
  from forward_data_loop_config [of r up fd] dl
  have c1: "retrievers_params fd1 = retrievers_params fd" "adaptive fd1 = adaptive fd" by simp_all
  obtain g1 up2 fd4 where gr:
    "get_response Forward up1 (?fd3\<lparr>forward_info := Some PROCESS_REQUEST\<rparr>) = (g1, up2, fd4)"
    by (cases "get_response Forward up1 (?fd3\<lparr>forward_info := Some PROCESS_REQUEST\<rparr>)")
  with g have g1: "g1 = Done r2" by simp
  from get_response_frame'(1,2) [OF gr] c1
  have c4: "retrievers_params fd4 = retrievers_params fd" "adaptive fd4 = adaptive fd" by simp_all
  have lg: "log_retriever_state Forward ?fd3 = None"
    using lim by (simp add: log_retriever_state_def set_offset_def sleep_def)
  let ?fd5 = "(count ''forward_resource_count'' (int (length (data r2)))
                 (dimension ''forward_last_response'' None fd4))
              \<lparr>resource_item_count := Some (int (length (data r2)))\<rparr>"
  let ?w' = "if data r2 \<noteq> [] then (if w > m then w - 1 else w) else (if w < 30 then w + 1 else w)"
  have "\<exists>fd6. adapt (length (data r2)) ?fd5 = Inr fd6 \<and>
               retrievers_params fd6 ''up_wait_sleep'' = Some ?w'"
    using ad w m c4 unfolding adapt_def
    by (cases "data r2 = []"; cases "w > m"; cases "w < 30"; simp)
  then obtain fd6 where fd6: "adapt (length (data r2)) ?fd5 = Inr fd6"
    "retrievers_params fd6 ''up_wait_sleep'' = Some ?w'"
    by blast
  show ?thesis
    unfolding forward_body_def using dl lg gr g1 fd6 by (simp add: Let_def)
qed


section \<open>The queue under the producers\<close>

lemma queue_bounded_frame [simp]:
  "queue_bounded n (count c v fd) = queue_bounded n fd"
  "queue_bounded n (dimension c w fd) = queue_bounded n fd"
  "queue_bounded n (latency c fd) = queue_bounded n fd"
  "queue_bounded n (sleep s fd) = queue_bounded n fd"
  "queue_bounded n (set_offset d off fd) = queue_bounded n fd"
  "queue_bounded n (fd\<lparr>backward_info := b\<rparr>) = queue_bounded n fd"
  "queue_bounded n (fd\<lparr>forward_info := b\<rparr>) = queue_bounded n fd"
  "queue_bounded n (fd\<lparr>resource_item_count := i\<rparr>) = queue_bounded n fd"
  "queue_bounded n (fd\<lparr>retrievers_params := p\<rparr>) = queue_bounded n fd"
  "queue_bounded n (fd\<lparr>backward_worker := g\<rparr>) = queue_bounded n fd"
  "queue_bounded n (fd\<lparr>forward_worker := g'\<rparr>) = queue_bounded n fd"
  "queue_bounded n (fd\<lparr>spawned := k\<rparr>) = queue_bounded n fd"
  by (simp_all add: queue_bounded_def)

lemma get_response_bounded:
  "get_response d up fd = (r, up', fd') \<Longrightarrow> queue_bounded n fd' = queue_bounded n fd"
  by (simp add: queue_bounded_def get_response_frame'(3,4))

lemma adapt_queue_bounded:
  "adapt len fd = Inr fd' \<Longrightarrow> queue_bounded n fd' = queue_bounded n fd"
  unfolding adapt_def by (auto split: if_splits option.splits)

lemma backward_body_bounded:
  assumes "0 < n" "queue_bounded n fd"
  shows "queue_bounded n (snd (snd (backward_body r up fd)))"
proof -
  let ?fd0 = "fd\<lparr>backward_info := Some PROCESS_DATA\<rparr>"
  obtain h fd1 where h: "handle_response_data (data r) ?fd0 = (h, fd1)"
    by (cases "handle_response_data (data r) ?fd0")
  with handle_response_data_bounded [OF assms(1), of ?fd0 "data r"] assms(2)
  have fd1: "queue_bounded n fd1" by simp
  let ?fd2 = "set_offset Backward (next_page_offset r) fd1"
  obtain g up' fd3 where g: "get_response Backward up (?fd2\<lparr>backward_info := Some PROCESS_REQUEST\<rparr>) = (g, up', fd3)"
    by (cases "get_response Backward up (?fd2\<lparr>backward_info := Some PROCESS_REQUEST\<rparr>)")
  from get_response_bounded [OF g, of n] fd1 have fd3: "queue_bounded n fd3" by simp
  show ?thesis
    unfolding backward_body_def using h g fd1 fd3
    by (auto simp: Let_def split: run.splits option.splits)
qed

lemma forward_data_body_bounded:
  assumes "0 < n" "queue_bounded n fd"
  shows "queue_bounded n (snd (snd (forward_data_body r up fd)))"
proof -
  let ?fd0 = "fd\<lparr>forward_info := Some PROCESS_DATA\<rparr>"
  obtain h fd1 where h: "handle_response_data (data r) ?fd0 = (h, fd1)"
    by (cases "handle_response_data (data r) ?fd0")
  with handle_response_data_bounded [OF assms(1), of ?fd0 "data r"] assms(2)
  have fd1: "queue_bounded n fd1" by simp
  let ?fd2 = "set_offset Forward (next_page_offset r) fd1"
  obtain g up' fd3 where g: "get_response Forward up (?fd2\<lparr>forward_info := Some PROCESS_REQUEST\<rparr>) = (g, up', fd3)"
    by (cases "get_response Forward up (?fd2\<lparr>forward_info := Some PROCESS_REQUEST\<rparr>)")
  from get_response_bounded [OF g, of n] fd1 have fd3: "queue_bounded n fd3" by simp
  show ?thesis
    unfolding forward_data_body_def using h g fd1 fd3
    by (auto simp: Let_def split: run.splits option.splits)
qed

lemma forward_body_queue_bounded:
  assumes "0 < n" "queue_bounded n fd"
  shows "queue_bounded n (snd (snd (forward_body r up fd)))"
proof -
  obtain l up1 fd1 where l: "forward_data_loop r up fd = (l, up1, fd1)"
    by (cases "forward_data_loop r up fd")
  have "queue_bounded n (snd (snd (forward_data_loop r up fd)))"
    using forward_data_loop_preserves [of "queue_bounded n" fd r up]
      forward_data_body_bounded [OF assms(1)] assms(2) by blast
  with l have fd1: "queue_bounded n fd1" by simp
  show ?thesis
  proof (cases l)
    case (Done r1)
    let ?fd3 = "set_offset Forward (next_page_offset r1)
                 (sleep (get_sleep fd1 ''up_wait_sleep'' 30) (fd1\<lparr>forward_info := Some SLEEP\<rparr>))"
    have fd3: "queue_bounded n ?fd3" using fd1 by simp
    obtain g up2 fd4 where g: "get_response Forward up1 (?fd3\<lparr>forward_info := Some PROCESS_REQUEST\<rparr>) = (g, up2, fd4)"
      by (cases "get_response Forward up1 (?fd3\<lparr>forward_info := Some PROCESS_REQUEST\<rparr>)")
    from get_response_bounded [OF g, of n] fd3 have fd4: "queue_bounded n fd4" by simp
    show ?thesis
      unfolding forward_body_def using l Done g fd3 fd4
      by (auto simp: Let_def adapt_queue_bounded split: run.splits option.splits sum.splits)
  qed (use l fd1 in \<open>simp_all add: forward_body_def\<close>)
qed

lemma retriever_backward_bounded:
  assumes "0 < n" "queue_bounded n fd"
  shows "queue_bounded n (snd (snd (retriever_backward up fd)))"
proof -
  obtain g up1 fd1 where g: "get_response Backward up (fd\<lparr>backward_info := Some PROCESS_REQUEST\<rparr>) = (g, up1, fd1)"
    by (cases "get_response Backward up (fd\<lparr>backward_info := Some PROCESS_REQUEST\<rparr>)")
  from get_response_bounded [OF g, of n] assms(2) have fd1: "queue_bounded n fd1" by simp
  show ?thesis
  proof (cases g)
    case (Done r)
    let ?fd2 = "count ''backward_resource_count'' (int (length (data r)))
                  (dimension ''backward_last_response'' None fd1)"
    have fd2: "queue_bounded n ?fd2" using fd1 by simp
    have "queue_bounded n (snd (snd (backward_loop r up1 ?fd2)))"
      using backward_loop_preserves [of "queue_bounded n" ?fd2 r up1]
        backward_body_bounded [OF assms(1)] fd2 by simp
    with g Done fd2 show ?thesis
      unfolding retriever_backward_def by (simp add: Let_def)
  qed (use g fd1 in \<open>simp_all add: retriever_backward_def\<close>)
qed

lemma retriever_forward_queue_bounded:
  assumes "0 < n" "queue_bounded n fd"
  shows "queue_bounded n (snd (snd (retriever_forward up fd)))"
proof -
  obtain g up1 fd1 where g: "get_response Forward up (fd\<lparr>forward_info := Some PROCESS_REQUEST\<rparr>) = (g, up1, fd1)"
    by (cases "get_response Forward up (fd\<lparr>forward_info := Some PROCESS_REQUEST\<rparr>)")
  from get_response_bounded [OF g, of n] assms(2) have fd1: "queue_bounded n fd1" by simp
  show ?thesis
  proof (cases g)
    case (Done r)
    let ?fd2 = "count ''forward_resource_count'' (int (length (data r)))
                  (dimension ''forward_last_response'' None fd1)"
    have fd2: "queue_bounded n ?fd2" using fd1 by simp
    have "queue_bounded n (snd (snd (forward_loop r up1 ?fd2)))"
      using forward_loop_preserves [of "queue_bounded n" ?fd2 r up1]
        forward_body_queue_bounded [OF assms(1)] fd2 by blast
    with g Done fd2 show ?thesis
      unfolding retriever_forward_def by (simp add: Let_def)
  qed (use g fd1 in \<open>simp_all add: retriever_forward_def\<close>)
qed

lemma start_sync_bounded:
  assumes "0 < n" "queue_bounded n fd"
  shows "queue_bounded n (snd (snd (start_sync up fd)))"
proof (cases up)
  case Nil
  with assms show ?thesis by simp
next
  case (Cons a list)
  obtain o1 fd1 where s: "sync_tenders Backward a fd = (o1, fd1)"
    by (cases "sync_tenders Backward a fd")
  with sync_tenders_frame(9,10) [of Backward a fd] assms(2)
  have fd1: "queue_bounded n fd1" by (simp add: queue_bounded_def)
  show ?thesis
  proof (cases o1)
    case (Ok r)
    obtain h fd2 where h: "handle_response_data (data r) fd1 = (h, fd2)"
      by (cases "handle_response_data (data r) fd1")
    with handle_response_data_bounded [OF assms(1) fd1, of "data r"]
    have "queue_bounded n fd2" by simp
    with Cons s Ok h show ?thesis by (cases h) simp_all
  next
    case (Fail e)
    with Cons s fd1 show ?thesis by simp
  qed
qed

lemma backward_loop_blocks:
  assumes "data r \<noteq> []" "0 < queue_maxsize fd" "queue_maxsize fd \<le> of_nat (length (queue fd))"
  shows "backward_loop r up fd = (Blocked (data r), up, fd\<lparr>backward_info := Some PROCESS_DATA\<rparr>)"
proof -
  from assms obtain t ts where d: "data r = t # ts" by (cases "data r") auto
  have "handle_response_data (data r) (fd\<lparr>backward_info := Some PROCESS_DATA\<rparr>) =
          (Blocked (data r), fd\<lparr>backward_info := Some PROCESS_DATA\<rparr>)"
    using assms(2,3) unfolding d by (simp add: put_def)
  then have "backward_body r up fd = (Blocked (data r), up, fd\<lparr>backward_info := Some PROCESS_DATA\<rparr>)"
    unfolding backward_body_def by simp
  with assms(1) show ?thesis by (subst backward_loop.simps) simp
qed

lemma forward_loop_blocks:
  assumes "data r \<noteq> []" "0 < queue_maxsize fd" "queue_maxsize fd \<le> of_nat (length (queue fd))"
  shows "forward_loop r up fd = (Blocked (data r), up, fd\<lparr>forward_info := Some PROCESS_DATA\<rparr>)"
proof -
  from assms obtain t ts where d: "data r = t # ts" by (cases "data r") auto
  have "handle_response_data (data r) (fd\<lparr>forward_info := Some PROCESS_DATA\<rparr>) =
          (Blocked (data r), fd\<lparr>forward_info := Some PROCESS_DATA\<rparr>)"
    using assms(2,3) unfolding d by (simp add: put_def)
  then have "forward_data_body r up fd = (Blocked (data r), up, fd\<lparr>forward_info := Some PROCESS_DATA\<rparr>)"
    unfolding forward_data_body_def by simp
  with assms(1) have "forward_data_loop r up fd =
      (Blocked (data r), up, fd\<lparr>forward_info := Some PROCESS_DATA\<rparr>)"
    by (subst forward_data_loop.simps) simp
  then have "forward_body r up fd = (Blocked (data r), up, fd\<lparr>forward_info := Some PROCESS_DATA\<rparr>)"
    unfolding forward_body_def by simp
  then show ?thesis by (subst forward_loop.simps) simp
qed

lemma ResourceFeeder_init_queue:
  "retrievers ''queue_size'' = Some n \<Longrightarrow>
   \<exists>fd. ResourceFeeder_init extra retrievers adp = Inr fd \<and> queue_maxsize fd = n \<and> queue fd = []"
  by (simp add: ResourceFeeder_init_def)

lemma producers_bounded:
  assumes "queue_maxsize fd = of_int n" "0 < n" "int (length (queue fd)) \<le> n"
  shows "int (length (queue (snd (handle_response_data ts fd)))) \<le> n"
    "int (length (queue (snd (snd (start_sync up fd))))) \<le> n"
    "int (length (queue (snd (snd (retriever_backward up fd))))) \<le> n"
    "int (length (queue (snd (snd (retriever_forward up fd))))) \<le> n"
proof -
  from assms(1,3) have b: "queue_bounded n fd" by (simp add: queue_bounded_def)
  show "int (length (queue (snd (handle_response_data ts fd)))) \<le> n"
    using handle_response_data_bounded [OF assms(2) b, of ts] by (simp add: queue_bounded_def)
  show "int (length (queue (snd (snd (start_sync up fd))))) \<le> n"
    using start_sync_bounded [OF assms(2) b, of up] by (simp add: queue_bounded_def)
  show "int (length (queue (snd (snd (retriever_backward up fd))))) \<le> n"
    using retriever_backward_bounded [OF assms(2) b, of up] by (simp add: queue_bounded_def)
  show "int (length (queue (snd (snd (retriever_forward up fd))))) \<le> n"
    using retriever_forward_queue_bounded [OF assms(2) b, of up] by (simp add: queue_bounded_def)
qed

section \<open>Seeding and supervision\<close>

lemma start_sync_requests:
  "requests (snd (snd (start_sync (a # up) fd))) = requests fd @ [(Backward, backward_params fd)]"
proof -
  obtain o1 fd1 where s: "sync_tenders Backward a fd = (o1, fd1)"
    by (cases "sync_tenders Backward a fd")
  with more_frames(9) [of Backward a fd]
  have fd1: "requests fd1 = requests fd @ [(Backward, backward_params fd)]" by simp
  show ?thesis
  proof (cases o1)
    case (Ok r)
    obtain h fd2 where h: "handle_response_data (data r) fd1 = (h, fd2)"
      by (cases "handle_response_data (data r) fd1")
    with handle_response_data_frame(4) [of "data r" fd1] fd1
    have "requests fd2 = requests fd @ [(Backward, backward_params fd)]" by simp
    with s Ok h show ?thesis by (cases h) (simp_all add: set_offset_def)
  next
    case (Fail e)
    with s fd1 show ?thesis by simp
  qed
qed

lemma start_sync_Ok:
  assumes "outcome a = Ok response"
    and "queue_maxsize fd \<le> 0 \<or>
         of_nat (length (queue fd)) + of_nat (length (data response)) \<le> queue_maxsize fd"
  shows "\<exists>fd'. start_sync (a # up) fd = (Done (), up, fd') \<and>
           queue fd' = queue fd @ data response \<and>
           backward_params fd' = (backward_params fd)(''offset'' \<mapsto> PStr (next_page_offset response)) \<and>
           forward_params fd' = (forward_params fd)(''offset'' \<mapsto> PStr (prev_page_offset response)) \<and>
           backward_worker fd' = Some Running \<and> forward_worker fd' = Some Running \<and>
           spawned fd' = spawned fd + 2 \<and>
           cookies fd' = cookies fd \<and>
           jars fd' = jars (snd (sync_tenders Backward a fd)) \<and>
           jar_count fd' = jar_count (snd (sync_tenders Backward a fd)) \<and>
           backward_client fd' = backward_client (snd (sync_tenders Backward a fd)) \<and>
           forward_client fd' = forward_client (snd (sync_tenders Backward a fd))"
proof -
  obtain o1 fd1 where s: "sync_tenders Backward a fd = (o1, fd1)"
    by (cases "sync_tenders Backward a fd")
  with assms(1) sync_tenders_fst [of Backward a fd] have o1: "o1 = Ok response" by simp
  from s sync_tenders_frame [where d = Backward and a = a and fd = fd]
  have q: "queue fd1 = queue fd" "queue_maxsize fd1 = queue_maxsize fd"
    "backward_params fd1 = backward_params fd" "forward_params fd1 = forward_params fd"
    "cookies fd1 = cookies fd"
    by simp_all
  have sp: "spawned fd1 = spawned fd"
    using s by (auto simp: sync_tenders_def Let_def split: session_effect.splits)
  have "handle_response_data (data response) fd1 = (Done (), fd1\<lparr>queue := queue fd1 @ data response\<rparr>)"
    by (rule handle_response_data_room) (use assms(2) q in simp)
  with s o1 q sp show ?thesis by (simp add: set_offset_def)
qed

lemma start_sync_not_Done:
  assumes "fst (start_sync up fd) \<noteq> Done ()"
  shows "backward_worker (snd (snd (start_sync up fd))) = backward_worker fd \<and>
         forward_worker (snd (snd (start_sync up fd))) = forward_worker fd \<and>
         spawned (snd (snd (start_sync up fd))) = spawned fd \<and>
         backward_params (snd (snd (start_sync up fd))) = backward_params fd \<and>
         forward_params (snd (snd (start_sync up fd))) = forward_params fd"
proof (cases up)
  case Nil
  then show ?thesis by simp
next
  case (Cons a list)
  obtain o1 fd1 where s: "sync_tenders Backward a fd = (o1, fd1)"
    by (cases "sync_tenders Backward a fd")
  with sync_tenders_frame [where d = Backward and a = a and fd = fd]
  have fd1: "backward_worker fd1 = backward_worker fd" "forward_worker fd1 = forward_worker fd"
    "backward_params fd1 = backward_params fd" "forward_params fd1 = forward_params fd"
    by simp_all
  have sp: "spawned fd1 = spawned fd"
    using s by (auto simp: sync_tenders_def Let_def split: session_effect.splits)
  show ?thesis
  proof (cases o1)
    case (Ok r)
    obtain h fd2 where h: "handle_response_data (data r) fd1 = (h, fd2)"
      by (cases "handle_response_data (data r) fd1")
    from handle_response_data_queue [OF h] have "fd2 = fd1\<lparr>queue := queue fd2\<rparr>" by simp
    then have "backward_worker fd2 = backward_worker fd1 \<and> forward_worker fd2 = forward_worker fd1 \<and>
      spawned fd2 = spawned fd1 \<and> backward_params fd2 = backward_params fd1 \<and>
      forward_params fd2 = forward_params fd1"
      by (metis feeder.select_convs feeder.surjective feeder.update_convs(5))
    with Cons s Ok h assms fd1 sp show ?thesis by (cases h) simp_all
  next
    case (Fail e)
    with Cons s fd1 sp show ?thesis by simp
  qed
qed


lemma start_sync_Fail:
  assumes "outcome a = Fail e"
  shows "start_sync (a # up) fd = (Raised e, up, snd (sync_tenders Backward a fd))"
proof -
  obtain o1 fd1 where s: "sync_tenders Backward a fd = (o1, fd1)"
    by (cases "sync_tenders Backward a fd")
  with assms sync_tenders_fst [of Backward a fd] have "o1 = Fail e" by simp
  with s show ?thesis by simp
qed

lemma init_api_clients_descending:
  "extra_params fd ''descending'' = None \<Longrightarrow>
   backward_params (init_api_clients fd) ''descending'' = Some (PBool True)"
  by (simp add: init_api_clients_def Let_def map_add_def)

















lemma init_api_clients_descending_override:
  "backward_params (init_api_clients fd) ''descending'' =
     (case extra_params fd ''descending'' of None \<Rightarrow> Some (PBool True) | Some v \<Rightarrow> Some v)"
  by (simp add: init_api_clients_def Let_def map_add_def split: option.splits)

lemma start_sync_Fail_fst:
  "outcome a = Fail e \<Longrightarrow> fst (start_sync (a # up) fd) = Raised e"
  using start_sync_Fail [of a e up fd] by (simp del: start_sync.simps)

section \<open>The claims\<close>

text \<open>
  C2 (amended). Every call of \<^verbatim>\<open>get_response\<close> starts its interval at 0.2 s, whatever
  was slept before. Each \<open>ConnectionError\<close> doubles the interval and then sleeps for
  the doubled interval, so the sleeps of consecutive errors are 0.4 s, 0.8 s, ...; the
  error is raised, without a sleep, when it occurs while the interval exceeds 300 s,
  which is at the 12th consecutive error, after eleven sleeps the last of which lasts
  409.6 s. No sleep of the loop, for any upstream, is longer than 409.6 s.
\<close>

theorem connection_error_backoff:
  assumes "\<forall>a\<in>set as. outcome a = Fail ConnectionError" and "length as \<le> 12"
  shows "(\<exists>fd'. get_response d (as @ upstream) fd =
                 (if length as = 12 then (Raised ConnectionError, upstream, fd')
                  else get_response_loop (2 ^ length as / 5) d upstream fd') \<and>
               slept fd' = slept fd @ map (\<lambda>k. 2 ^ k / 5) [1..<Suc (min 11 (length as))]) \<and>
         (\<exists>new. slept (snd (snd (get_response d other fd))) = slept fd @ new \<and>
                (\<forall>s\<in>set new. s \<le> 2048 / 5))"
proof (rule conjI)
  show "\<exists>fd'. get_response d (as @ upstream) fd =
                 (if length as = 12 then (Raised ConnectionError, upstream, fd')
                  else get_response_loop (2 ^ length as / 5) d upstream fd') \<and>
               slept fd' = slept fd @ map (\<lambda>k. 2 ^ k / 5) [1..<Suc (min 11 (length as))]"
  proof (cases "length as = 12")
    case True
    then have ne: "as \<noteq> []" by auto
    then have split: "as = butlast as @ [last as]" by simp
    have "\<forall>a\<in>set (butlast as). outcome a = Fail ConnectionError"
      using assms(1) by (auto dest: in_set_butlastD)
    moreover have "length (butlast as) = 11" using True by simp
    moreover have "outcome (last as) = Fail ConnectionError" using assms(1) ne by simp
    ultimately obtain fd' where
      "get_response d (butlast as @ last as # upstream) fd = (Raised ConnectionError, upstream, fd')"
      "slept fd' = slept fd @ map (\<lambda>k. 2 ^ k / 5) [1..<12]"
      using connection_error_raise [of "butlast as" "last as" d upstream fd] by blast
    moreover have "butlast as @ last as # upstream = as @ upstream"
      using split by (metis append.assoc append_Cons append_Nil)
    ultimately show ?thesis using True by (intro exI [of _ fd']) simp
  next
    case False
    with assms(2) have le: "length as \<le> 11" by simp
    from connection_error_fresh [OF assms(1) le, of d upstream fd]
    show ?thesis using False le by (auto simp: min_def)
  qed
  show "\<exists>new. slept (snd (snd (get_response d other fd))) = slept fd @ new \<and>
                (\<forall>s\<in>set new. s \<le> 2048 / 5)"
    by (rule get_response_sleeps)
qed

theorem connection_error_backoff_witness:
  "outcome (failure ConnectionError) = Fail ConnectionError \<and>
   length (replicate 12 (failure ConnectionError)) \<le> 12 \<and>
   (\<exists>fd'. get_response Backward (replicate 12 (failure ConnectionError) @ []) feeder1 =
            (Raised ConnectionError, [], fd') \<and>
          slept fd' = [2/5, 4/5, 8/5, 16/5, 32/5, 64/5, 128/5, 256/5, 512/5, 1024/5, 2048/5])"
proof -
  have h: "\<forall>a\<in>set (replicate 12 (failure ConnectionError)). outcome a = Fail ConnectionError"
    by (simp add: failure_def)
  have l: "length (replicate 12 (failure ConnectionError)) \<le> 12" by simp
  have m: "map (\<lambda>k. 2 ^ k / 5) [Suc 0..<12] =
           [2/5, 4/5, 8/5, 16/5, 32/5, 64/5, 128/5, 256/5, 512/5, 1024/5, 2048/5 :: rat]"
    by (simp add: upt_rec)
  from connection_error_backoff [OF h l, of Backward "[]" feeder1 "[]"] h l
  show ?thesis by (simp add: feeder1_simps m)
qed

text \<open>
  C2 as stated fails: eleven consecutive errors make the loop sleep for 409.6 s,
  which is more than 300 s.
\<close>

theorem connection_error_sleep_counterexample:
  "2048 / 5 \<in> set (slept (snd (snd
      (get_response Backward (replicate 11 (failure ConnectionError)) feeder1)))) \<and>
   (300 :: rat) < 2048 / 5"
proof -
  have h: "\<forall>a\<in>set (replicate 11 (failure ConnectionError)). outcome a = Fail ConnectionError"
    by (simp add: failure_def)
  from connection_error_fresh [OF h, of Backward "[]" feeder1]
  obtain fd' where
    "get_response Backward (replicate 11 (failure ConnectionError)) feeder1 =
       get_response_loop (2 ^ 11 / 5) Backward [] fd'"
    "slept fd' = slept feeder1 @ map (\<lambda>k. 2 ^ k / 5) [1..<12]"
    by auto
  then show ?thesis by (simp add: upt_rec)
qed

text \<open>
  C3 (amended). A \<open>RequestFailed\<close> with status 429 doubles the same interval and then
  sleeps for the doubled interval; the error is raised, without a sleep, when it occurs
  while the interval exceeds 120 s. In a call that sees only such failures the sleeps
  are 0.4 s, 0.8 s, ..., the tenth lasts 204.8 s, and the eleventh failure raises.
\<close>

theorem rate_limited_backoff:
  assumes "\<forall>a\<in>set as. outcome a = Fail (RequestFailed 429)" and "length as \<le> 11"
  shows "(\<exists>fd'. get_response d (as @ upstream) fd =
                 (if length as = 11 then (Raised (RequestFailed 429), upstream, fd')
                  else get_response_loop (2 ^ length as / 5) d upstream fd') \<and>
               slept fd' = slept fd @ map (\<lambda>k. 2 ^ k / 5) [1..<Suc (min 10 (length as))]) \<and>
         (\<forall>a \<in> set as.
            get_response_loop si d (a # upstream) fd =
              (let fd2 = count (direction_name d @ ''_request_failed'') 1
                           (snd (sync_tenders d a fd)) in
               if si > 120 then (Raised (RequestFailed 429), upstream, fd2)
               else get_response_loop (si * 2) d upstream (sleep (si * 2) fd2)))"
proof (rule conjI)
  show "\<exists>fd'. get_response d (as @ upstream) fd =
                 (if length as = 11 then (Raised (RequestFailed 429), upstream, fd')
                  else get_response_loop (2 ^ length as / 5) d upstream fd') \<and>
               slept fd' = slept fd @ map (\<lambda>k. 2 ^ k / 5) [1..<Suc (min 10 (length as))]"
  proof (cases "length as = 11")
    case True
    then have ne: "as \<noteq> []" by auto
    then have split: "as = butlast as @ [last as]" by simp
    have "\<forall>a\<in>set (butlast as). outcome a = Fail (RequestFailed 429)"
      using assms(1) by (auto dest: in_set_butlastD)
    moreover have "length (butlast as) = 10" using True by simp
    moreover have "outcome (last as) = Fail (RequestFailed 429)" using assms(1) ne by simp
    ultimately obtain fd' where
      "get_response d (butlast as @ last as # upstream) fd =
         (Raised (RequestFailed 429), upstream, fd')"
      "slept fd' = slept fd @ map (\<lambda>k. 2 ^ k / 5) [1..<11]"
      using rate_limited_raise [of "butlast as" "last as" d upstream fd] by blast
    moreover have "butlast as @ last as # upstream = as @ upstream"
      using split by (metis append.assoc append_Cons append_Nil)
    ultimately show ?thesis using True by (intro exI [of _ fd']) simp
  next
    case False
    with assms(2) have le: "length as \<le> 10" by simp
    from rate_limited_fresh [OF assms(1) le, of d upstream fd]
    show ?thesis using False le by (auto simp: min_def)
  qed
  show "\<forall>a \<in> set as.
            get_response_loop si d (a # upstream) fd =
              (let fd2 = count (direction_name d @ ''_request_failed'') 1
                           (snd (sync_tenders d a fd)) in
               if si > 120 then (Raised (RequestFailed 429), upstream, fd2)
               else get_response_loop (si * 2) d upstream (sleep (si * 2) fd2))"
    using assms(1) by (auto simp: get_response_loop_429)
qed

theorem rate_limited_backoff_witness:
  "outcome (failure (RequestFailed 429)) = Fail (RequestFailed 429) \<and>
   length (replicate 11 (failure (RequestFailed 429))) \<le> 11 \<and>
   (\<exists>fd'. get_response Forward (replicate 11 (failure (RequestFailed 429)) @ []) feeder1 =
            (Raised (RequestFailed 429), [], fd') \<and>
          slept fd' = [2/5, 4/5, 8/5, 16/5, 32/5, 64/5, 128/5, 256/5, 512/5, 1024/5])"
proof -
  have h: "\<forall>a\<in>set (replicate 11 (failure (RequestFailed 429))).
             outcome a = Fail (RequestFailed 429)"
    by (simp add: failure_def)
  have l: "length (replicate 11 (failure (RequestFailed 429))) \<le> 11" by simp
  have m: "map (\<lambda>k. 2 ^ k / 5) [Suc 0..<11] =
           [2/5, 4/5, 8/5, 16/5, 32/5, 64/5, 128/5, 256/5, 512/5, 1024/5 :: rat]"
    by (simp add: upt_rec)
  from rate_limited_backoff [OF h l, of Forward "[]" feeder1 0] h l
  show ?thesis by (simp add: feeder1_simps m)
qed

text \<open>
  C3 as stated fails: ten consecutive 429 failures make the loop sleep for 204.8 s,
  which is more than 120 s.
\<close>

theorem rate_limited_sleep_counterexample:
  "1024 / 5 \<in> set (slept (snd (snd
      (get_response Forward (replicate 10 (failure (RequestFailed 429))) feeder1)))) \<and>
   (120 :: rat) < 1024 / 5"
proof -
  have h: "\<forall>a\<in>set (replicate 10 (failure (RequestFailed 429))).
             outcome a = Fail (RequestFailed 429)"
    by (simp add: failure_def)
  from rate_limited_fresh [OF h, of Forward "[]" feeder1]
  obtain fd' where
    "get_response Forward (replicate 10 (failure (RequestFailed 429))) feeder1 =
       get_response_loop (2 ^ 10 / 5) Forward [] fd'"
    "slept fd' = slept feeder1 @ map (\<lambda>k. 2 ^ k / 5) [1..<11]"
    by auto
  then show ?thesis by (simp add: upt_rec)
qed



text \<open>
  C10. When two fetches in a row end in \<open>ResourceNotFound\<close> and the params hold an
  \<^verbatim>\<open>offset\<close>, the first handler removes the key and retries, and the second
  \<^verbatim>\<open>del params['offset']\<close> raises \<open>KeyError\<close>, which leaves the retry loop, without a
  sleep, and faults the retriever that called it.
\<close>

theorem resource_not_found_twice_raises:
  assumes "outcome a1 = Fail ResourceNotFound" and "outcome a2 = Fail ResourceNotFound"
    and "params_of d fd ''offset'' \<noteq> None"
  shows "(\<exists>fd'. get_response_loop si d (a1 # a2 # upstream) fd =
                 (Raised (KeyError ''offset''), upstream, fd') \<and>
               slept fd' = slept fd \<and> params_of d fd' ''offset'' = None) \<and>
         fst (get_response d (a1 # a2 # upstream) fd) = Raised (KeyError ''offset'') \<and>
         fst (retriever_backward (a1 # a2 # upstream) fd) = Raised (KeyError ''offset'') \<and>
         fst (retriever_forward (a1 # a2 # upstream) fd) = Raised (KeyError ''offset'')"
proof -
  have g: "\<And>d (fd::feeder). fst (get_response d (a1 # a2 # upstream) fd) = Raised (KeyError ''offset'')"
    unfolding get_response_def by (rule two_resource_not_found(1) [OF assms(1,2)])
  have b: "fst (retriever_backward (a1 # a2 # upstream) fd) = Raised (KeyError ''offset'')"
    using g [of Backward "fd\<lparr>backward_info := Some PROCESS_REQUEST\<rparr>"]
    unfolding retriever_backward_def
    by (cases "get_response Backward (a1 # a2 # upstream) (fd\<lparr>backward_info := Some PROCESS_REQUEST\<rparr>)")
       auto
  have f: "fst (retriever_forward (a1 # a2 # upstream) fd) = Raised (KeyError ''offset'')"
    using g [of Forward "fd\<lparr>forward_info := Some PROCESS_REQUEST\<rparr>"]
    unfolding retriever_forward_def
    by (cases "get_response Forward (a1 # a2 # upstream) (fd\<lparr>forward_info := Some PROCESS_REQUEST\<rparr>)")
       auto
  from two_resource_not_found(2) [OF assms] g [of d fd] b f show ?thesis by blast
qed

theorem resource_not_found_twice_raises_witness:
  "outcome (failure ResourceNotFound) = Fail ResourceNotFound \<and>
   params_of Forward feeder1 ''offset'' \<noteq> None \<and>
   fst (retriever_forward [failure ResourceNotFound, failure ResourceNotFound] feeder1) =
     Raised (KeyError ''offset'')"
proof -
  have h: "outcome (failure ResourceNotFound) = Fail ResourceNotFound" by (simp add: failure_def)
  have p: "params_of Forward feeder1 ''offset'' \<noteq> None" by (simp add: feeder1_simps)
  from resource_not_found_twice_raises [OF h h p, of 0 "[]"] h p show ?thesis by simp
qed

text \<open>
  C7. One \<open>ResourceNotFound\<close> is retried as the claim says, but a second one in the same
  call is not: the upstream of the first line raises \<open>KeyError\<close> instead of reaching its
  page, while the upstream of the second line, with one failure, returns the page.
\<close>

theorem resource_not_found_repeated:
  "fst (get_response Backward
          [failure ResourceNotFound, failure ResourceNotFound, page [] ''next1'' ''prev1'']
          feeder1) = Raised (KeyError ''offset'') \<and>
   fst (get_response Backward [failure ResourceNotFound, page [] ''next1'' ''prev1''] feeder1) =
     Done \<lparr>data = [], next_page_offset = ''next1'', prev_page_offset = ''prev1''\<rparr>"
  by (simp add: get_response_def two_resource_not_found(1) failure_def
       get_response_loop_ResourceNotFound get_response_loop_Ok page_def feeder1_simps Let_def)

text \<open>
  C1 (amended). The polls of the inner loop, which drains non-empty pages, never change
  \<^verbatim>\<open>up_wait_sleep\<close>; so against an upstream that returns a non-empty page on every poll
  the retriever params stay as they were. With \<^verbatim>\<open>adaptive\<close> set, \<^verbatim>\<open>up_wait_sleep\<close>
  is adjusted once per round of the outer loop, by the poll that follows the idle sleep:
  it is decremented by 1 when that poll returns items and it is above
  \<^verbatim>\<open>up_wait_sleep_min\<close>, and incremented by 1 when that poll is empty and it is below 30.
\<close>

theorem forward_adaptive_adjustment:
  "retrievers_params (snd (snd (forward_data_loop r up fd))) = retrievers_params fd \<and>
   ((\<forall>a\<in>set up. \<exists>r. outcome a = Ok r \<and> data r \<noteq> []) \<longrightarrow>
      retrievers_params (snd (snd (retriever_forward up fd))) = retrievers_params fd) \<and>
   (adaptive fd \<and> forward_data_loop r up fd = (Done r1, up1, fd1) \<and>
    forward_params fd1 ''limit'' \<noteq> None \<and>
    fst (get_response Forward up1
           ((set_offset Forward (next_page_offset r1)
               (sleep (get_sleep fd1 ''up_wait_sleep'' 30)
                  (fd1\<lparr>forward_info := Some SLEEP\<rparr>)))
            \<lparr>forward_info := Some PROCESS_REQUEST\<rparr>)) = Done r2 \<and>
    retrievers_params fd ''up_wait_sleep'' = Some w \<and>
    retrievers_params fd ''up_wait_sleep_min'' = Some m \<longrightarrow>
      retrievers_params (snd (snd (forward_body r up fd))) ''up_wait_sleep'' =
        Some (if data r2 \<noteq> [] then (if w > m then w - 1 else w)
              else (if w < 30 then w + 1 else w)))"
  using forward_data_loop_config [of r up fd] retriever_forward_nonempty_pages [of up fd]
    forward_body_adjusts [of fd r up r1 up1 fd1 r2 w m]
  by blast

theorem forward_adaptive_adjustment_witness:
  "retrievers_params
     (snd (snd (retriever_forward [page [''t''] ''o1'' ''p1'', page [''u''] ''o2'' ''p2''] feeder1)))
     = retrievers_params feeder1 \<and>
   retrievers_params (snd (snd (forward_body empty_response [page [''t''] ''o1'' ''p1''] feeder1)))
     ''up_wait_sleep'' = Some 29"
proof -
  let ?up = "[page [''t''] ''o1'' ''p1'', page [''u''] ''o2'' ''p2'']"
  let ?r2 = "\<lparr>data = [''t''], next_page_offset = ''o1'', prev_page_offset = ''p1''\<rparr>"
  have h1: "\<forall>a\<in>set ?up. \<exists>r. outcome a = Ok r \<and> data r \<noteq> []" by (simp add: page_def)
  have h2: "adaptive feeder1 \<and>
    forward_data_loop empty_response [page [''t''] ''o1'' ''p1''] feeder1 =
      (Done empty_response, [page [''t''] ''o1'' ''p1''], feeder1) \<and>
    forward_params feeder1 ''limit'' \<noteq> None \<and>
    fst (get_response Forward [page [''t''] ''o1'' ''p1'']
           ((set_offset Forward (next_page_offset empty_response)
               (sleep (get_sleep feeder1 ''up_wait_sleep'' 30)
                  (feeder1\<lparr>forward_info := Some SLEEP\<rparr>)))
            \<lparr>forward_info := Some PROCESS_REQUEST\<rparr>)) = Done ?r2 \<and>
    retrievers_params feeder1 ''up_wait_sleep'' = Some 30 \<and>
    retrievers_params feeder1 ''up_wait_sleep_min'' = Some 5"
    by (simp add: feeder1_simps forward_data_loop.simps empty_response_def get_response_def
          get_response_loop_Ok page_def DEFAULT_RETRIEVERS_PARAMS_def)
  from forward_adaptive_adjustment [of empty_response ?up feeder1]
    forward_adaptive_adjustment [of empty_response "[page [''t''] ''o1'' ''p1'']" feeder1
      empty_response "[page [''t''] ''o1'' ''p1'']" feeder1 ?r2 30 5] h1 h2
  show ?thesis by simp
qed

text \<open>
  C1 as stated fails: against 26 non-empty pages, from \<^verbatim>\<open>up_wait_sleep\<close> = 30 and
  \<^verbatim>\<open>up_wait_sleep_min\<close> = 5, the retriever makes all 26 polls and waits for the next
  one with \<^verbatim>\<open>up_wait_sleep\<close> still 30.
\<close>

theorem forward_adaptive_counterexample:
  "adaptive feeder1 \<and> retrievers_params feeder1 ''up_wait_sleep'' = Some 30 \<and>
   retrievers_params feeder1 ''up_wait_sleep_min'' = Some 5 \<and>
   fst (retriever_forward (replicate 26 (page [''t''] ''o'' ''p'')) feeder1) = Pending \<and>
   fst (snd (retriever_forward (replicate 26 (page [''t''] ''o'' ''p'')) feeder1)) = [] \<and>
   length (requests (snd (snd (retriever_forward (replicate 26 (page [''t''] ''o'' ''p'')) feeder1))))
     = length (requests feeder1) + 26 \<and>
   retrievers_params (snd (snd (retriever_forward (replicate 26 (page [''t''] ''o'' ''p'')) feeder1)))
     ''up_wait_sleep'' = Some 30"
proof -
  let ?p = "page [''t''] ''o'' ''p''"
  have r: "replicate 26 ?p = ?p # replicate 25 ?p" by (simp add: eval_nat_numeral)
  have h: "\<forall>a\<in>set (?p # replicate 25 ?p).
             \<exists>cs r. effect a = InPlace cs \<and> outcome a = Ok r \<and> data r \<noteq> []"
    by (simp add: page_def)
  have items: "page_items ?p = [''t'']" by (simp add: page_items_def page_def)
  have len: "length (concat (map page_items (?p # replicate 25 ?p))) = 26"
    by (simp add: items length_concat sum_list_replicate)
  have room: "queue_maxsize feeder1 \<le> 0 \<or>
         of_nat (length (queue feeder1)) + of_nat (length (concat (map page_items (?p # replicate 25 ?p))))
           \<le> queue_maxsize feeder1"
    unfolding len by (simp add: feeder1_simps)
  from retriever_forward_pages [OF h _ _ room]
  obtain fd' where "retriever_forward (?p # replicate 25 ?p) feeder1 = (Pending, [], fd')"
    "length (requests fd') = length (requests feeder1) + Suc (length (replicate 25 ?p))"
    "retrievers_params fd' = retrievers_params feeder1"
    by (auto simp: feeder1_simps)
  then show ?thesis unfolding r by (simp add: feeder1_simps DEFAULT_RETRIEVERS_PARAMS_def)
qed








text \<open>
  C5 (amended). \<^verbatim>\<open>start_sync\<close> makes exactly one fetch, by the backward client with the
  backward params, in which \<^verbatim>\<open>init_api_clients\<close> has set \<^verbatim>\<open>descending\<close> to true unless
  the extra params give the key a value of their own, which then is the one sent. When
  the fetch raises, the exception leaves \<^verbatim>\<open>start_sync\<close>. When the fetch returns a page
  and the queue has room for its items, every item is appended to the queue in order,
  the backward cursor becomes the page's \<^verbatim>\<open>next_page.offset\<close> and the forward cursor its
  \<^verbatim>\<open>prev_page.offset\<close>, and two greenlets are spawned, which are the two workers. The
  workers are spawned last: when \<^verbatim>\<open>start_sync\<close> does not complete, no greenlet has
  been spawned and the worker attributes and both params are as they were.
\<close>

theorem start_sync_seeds:
  "backward_params (init_api_clients fd0) ''descending'' =
     (case extra_params fd0 ''descending'' of None \<Rightarrow> Some (PBool True) | Some v \<Rightarrow> Some v) \<and>
   requests (snd (snd (start_sync (a # up) fd))) = requests fd @ [(Backward, backward_params fd)] \<and>
   (outcome a = Fail e \<longrightarrow> fst (start_sync (a # up) fd) = Raised e) \<and>
   (outcome a = Ok response \<and>
    (queue_maxsize fd \<le> 0 \<or>
     of_nat (length (queue fd)) + of_nat (length (data response)) \<le> queue_maxsize fd) \<longrightarrow>
      fst (start_sync (a # up) fd) = Done () \<and>
      fst (snd (start_sync (a # up) fd)) = up \<and>
      queue (snd (snd (start_sync (a # up) fd))) = queue fd @ data response \<and>
      backward_params (snd (snd (start_sync (a # up) fd))) =
        (backward_params fd)(''offset'' \<mapsto> PStr (next_page_offset response)) \<and>
      forward_params (snd (snd (start_sync (a # up) fd))) =
        (forward_params fd)(''offset'' \<mapsto> PStr (prev_page_offset response)) \<and>
      backward_worker (snd (snd (start_sync (a # up) fd))) = Some Running \<and>
      forward_worker (snd (snd (start_sync (a # up) fd))) = Some Running \<and>
      spawned (snd (snd (start_sync (a # up) fd))) = spawned fd + 2) \<and>
   (fst (start_sync up' fd) \<noteq> Done () \<longrightarrow>
      backward_worker (snd (snd (start_sync up' fd))) = backward_worker fd \<and>
      forward_worker (snd (snd (start_sync up' fd))) = forward_worker fd \<and>
      spawned (snd (snd (start_sync up' fd))) = spawned fd \<and>
      backward_params (snd (snd (start_sync up' fd))) = backward_params fd \<and>
      forward_params (snd (snd (start_sync up' fd))) = forward_params fd)"
proof -
  have ok: "outcome a = Ok response \<and>
    (queue_maxsize fd \<le> 0 \<or>
     of_nat (length (queue fd)) + of_nat (length (data response)) \<le> queue_maxsize fd) \<longrightarrow>
      fst (start_sync (a # up) fd) = Done () \<and>
      fst (snd (start_sync (a # up) fd)) = up \<and>
      queue (snd (snd (start_sync (a # up) fd))) = queue fd @ data response \<and>
      backward_params (snd (snd (start_sync (a # up) fd))) =
        (backward_params fd)(''offset'' \<mapsto> PStr (next_page_offset response)) \<and>
      forward_params (snd (snd (start_sync (a # up) fd))) =
        (forward_params fd)(''offset'' \<mapsto> PStr (prev_page_offset response)) \<and>
      backward_worker (snd (snd (start_sync (a # up) fd))) = Some Running \<and>
      forward_worker (snd (snd (start_sync (a # up) fd))) = Some Running \<and>
      spawned (snd (snd (start_sync (a # up) fd))) = spawned fd + 2"
  proof
    assume h: "outcome a = Ok response \<and>
      (queue_maxsize fd \<le> 0 \<or>
       of_nat (length (queue fd)) + of_nat (length (data response)) \<le> queue_maxsize fd)"
    from start_sync_Ok [OF h [THEN conjunct1] h [THEN conjunct2], of up]
    obtain fd' where "start_sync (a # up) fd = (Done (), up, fd')"
      "queue fd' = queue fd @ data response"
      "backward_params fd' = (backward_params fd)(''offset'' \<mapsto> PStr (next_page_offset response))"
      "forward_params fd' = (forward_params fd)(''offset'' \<mapsto> PStr (prev_page_offset response))"
      "backward_worker fd' = Some Running" "forward_worker fd' = Some Running"
      "spawned fd' = spawned fd + 2"
      by (elim exE conjE)
    then show "fst (start_sync (a # up) fd) = Done () \<and>
      fst (snd (start_sync (a # up) fd)) = up \<and>
      queue (snd (snd (start_sync (a # up) fd))) = queue fd @ data response \<and>
      backward_params (snd (snd (start_sync (a # up) fd))) =
        (backward_params fd)(''offset'' \<mapsto> PStr (next_page_offset response)) \<and>
      forward_params (snd (snd (start_sync (a # up) fd))) =
        (forward_params fd)(''offset'' \<mapsto> PStr (prev_page_offset response)) \<and>
      backward_worker (snd (snd (start_sync (a # up) fd))) = Some Running \<and>
      forward_worker (snd (snd (start_sync (a # up) fd))) = Some Running \<and>
      spawned (snd (snd (start_sync (a # up) fd))) = spawned fd + 2"
      by simp
  qed
  have fl: "outcome a = Fail e \<longrightarrow> fst (start_sync (a # up) fd) = Raised e"
    using start_sync_Fail_fst [of a e up fd] by blast
  have nd: "fst (start_sync up' fd) \<noteq> Done () \<longrightarrow>
      backward_worker (snd (snd (start_sync up' fd))) = backward_worker fd \<and>
      forward_worker (snd (snd (start_sync up' fd))) = forward_worker fd \<and>
      spawned (snd (snd (start_sync up' fd))) = spawned fd \<and>
      backward_params (snd (snd (start_sync up' fd))) = backward_params fd \<and>
      forward_params (snd (snd (start_sync up' fd))) = forward_params fd"
    using start_sync_not_Done [of up' fd] by blast
  show ?thesis
    by (rule conjI [OF init_api_clients_descending_override conjI [OF start_sync_requests
          conjI [OF fl conjI [OF ok nd]]]])
qed

theorem start_sync_seeds_witness:
  "backward_params (init_api_clients feeder0) ''descending'' = Some (PBool True) \<and>
   fst (start_sync [page [''a'', ''b''] ''next0'' ''prev0''] (init_api_clients feeder0)) = Done () \<and>
   queue (snd (snd (start_sync [page [''a'', ''b''] ''next0'' ''prev0''] (init_api_clients feeder0))))
     = [''a'', ''b''] \<and>
   backward_params
     (snd (snd (start_sync [page [''a'', ''b''] ''next0'' ''prev0''] (init_api_clients feeder0))))
     ''offset'' = Some (PStr ''next0'') \<and>
   forward_params
     (snd (snd (start_sync [page [''a'', ''b''] ''next0'' ''prev0''] (init_api_clients feeder0))))
     ''offset'' = Some (PStr ''prev0'') \<and>
   forward_worker
     (snd (snd (start_sync [page [''a'', ''b''] ''next0'' ''prev0''] (init_api_clients feeder0))))
     = Some Running \<and>
   spawned
     (snd (snd (start_sync [page [''a'', ''b''] ''next0'' ''prev0''] (init_api_clients feeder0))))
     = 2 \<and>
   fst (start_sync [failure ConnectionError] (init_api_clients feeder0)) = Raised ConnectionError \<and>
   forward_worker (snd (snd (start_sync [failure ConnectionError] (init_api_clients feeder0))))
     = None \<and>
   spawned (snd (snd (start_sync [failure ConnectionError] (init_api_clients feeder0)))) = 0"
proof -
  let ?fd = "init_api_clients feeder0"
  let ?p = "page [''a'', ''b''] ''next0'' ''prev0''"
  let ?r = "\<lparr>data = [''a'', ''b''], next_page_offset = ''next0'', prev_page_offset = ''prev0''\<rparr>"
  let ?f = "failure ConnectionError"
  have e: "extra_params feeder0 ''descending'' = None"
    by (simp add: feeder0_def DEFAULT_API_EXTRA_PARAMS_def)
  have q: "queue ?fd = []" "forward_worker ?fd = None" "spawned ?fd = 0"
    by (simp_all add: init_api_clients_def feeder0_def Let_def)
  have o: "outcome ?p = Ok ?r \<and>
    (queue_maxsize ?fd \<le> 0 \<or>
     of_nat (length (queue ?fd)) + of_nat (length (data ?r)) \<le> queue_maxsize ?fd)"
    by (simp add: page_def init_api_clients_def feeder0_def Let_def)
  have fo: "outcome ?f = Fail ConnectionError" by (simp add: failure_def)
  note t = start_sync_seeds [where ?fd0.0 = feeder0 and a = ?p and up = "[]" and fd = ?fd
      and response = ?r]
  note u = start_sync_seeds [where a = ?f and up = "[]" and fd = ?fd and e = ConnectionError
      and up' = "[?f]"]
  from t [THEN conjunct1] e
  have p1: "backward_params ?fd ''descending'' = Some (PBool True)" by simp
  note p2 = t [THEN conjunct2, THEN conjunct2, THEN conjunct2, THEN conjunct1, THEN mp, OF o]
  note p3 = u [THEN conjunct2, THEN conjunct2, THEN conjunct1, THEN mp, OF fo]
  from p3 have n: "fst (start_sync [?f] ?fd) \<noteq> Done ()" by simp
  note p4 = u [THEN conjunct2, THEN conjunct2, THEN conjunct2, THEN conjunct2, THEN mp, OF n]
  from p1 p2 p3 p4 q show ?thesis by simp
qed

text \<open>
  C5 as stated fails. With \<^verbatim>\<open>extra_params\<close> that hold \<^verbatim>\<open>descending\<close>, the one fetch of
  \<^verbatim>\<open>start_sync\<close> is made with that value, here false. With \<^verbatim>\<open>queue_size\<close> 1 and a seed
  page of two items, \<^verbatim>\<open>start_sync\<close> blocks in \<^verbatim>\<open>queue.put\<close> holding the second item:
  no cursor is set and no retriever is spawned.
\<close>

theorem start_sync_counterexample:
  "ResourceFeeder_init
     ((DEFAULT_API_EXTRA_PARAMS(''limit'' \<mapsto> PStr ''100''))(''descending'' \<mapsto> PBool False))
     DEFAULT_RETRIEVERS_PARAMS True = Inr ascending_feeder \<and>
   (\<exists>p fd'. start_sync [page [''a''] ''next0'' ''prev0''] (init_api_clients ascending_feeder) =
              (Done (), [], fd') \<and>
            requests fd' = [(Backward, p)] \<and> p ''descending'' = Some (PBool False)) \<and>
   ResourceFeeder_init (DEFAULT_API_EXTRA_PARAMS(''limit'' \<mapsto> PStr ''100''))
     (DEFAULT_RETRIEVERS_PARAMS(''queue_size'' \<mapsto> 1)) True = Inr narrow_feeder \<and>
   (\<exists>fd'. start_sync [page [''a'', ''b''] ''next0'' ''prev0''] (init_api_clients narrow_feeder) =
            (Blocked [''b''], [], fd') \<and>
          queue fd' = [''a''] \<and>
          backward_params fd' ''offset'' = None \<and> forward_params fd' ''offset'' = None \<and>
          backward_worker fd' = None \<and> forward_worker fd' = None \<and> spawned fd' = 0)"
  by (simp add: ResourceFeeder_init_def ascending_feeder_def narrow_feeder_def feeder0_def
        DEFAULT_RETRIEVERS_PARAMS_def DEFAULT_API_EXTRA_PARAMS_def init_api_clients_def Let_def
        page_def sync_tenders_def put_def set_offset_def map_add_def)

text \<open>
  C9 (amended). The queue is created with \<^verbatim>\<open>maxsize = retrievers_params['queue_size']\<close>,
  101 by default. For a capacity that is a positive whole number, a queue within its
  capacity stays within it under every producer (\<^verbatim>\<open>handle_response_data\<close>,
  \<^verbatim>\<open>start_sync\<close>, both retrievers), whatever the upstream. \<^verbatim>\<open>handle_response_data\<close>
  either enqueues every item, in order, or blocks on a full queue of positive capacity
  holding the items not yet enqueued, so that nothing is dropped, and it makes no fetch.
  A retriever that finds a queue of positive capacity full when it has a non-empty page
  blocks with the whole page in hand and leaves the upstream untouched.
\<close>

theorem queue_backpressure:
  "(retrievers ''queue_size'' = Some q \<longrightarrow>
      (\<exists>fd. ResourceFeeder_init extra retrievers adp = Inr fd \<and> queue_maxsize fd = q \<and>
            queue fd = [])) \<and>
   DEFAULT_RETRIEVERS_PARAMS ''queue_size'' = Some 101 \<and>
   (queue_maxsize fd = of_int n \<and> 0 < n \<and> int (length (queue fd)) \<le> n \<longrightarrow>
      int (length (queue (snd (handle_response_data ts fd)))) \<le> n \<and>
      int (length (queue (snd (snd (start_sync up fd))))) \<le> n \<and>
      int (length (queue (snd (snd (retriever_backward up fd))))) \<le> n \<and>
      int (length (queue (snd (snd (retriever_forward up fd))))) \<le> n) \<and>
   (handle_response_data ts fd = (res, fd') \<longrightarrow>
      requests fd' = requests fd \<and>
      (case res of
         Done u \<Rightarrow> queue fd' = queue fd @ ts
       | Blocked p \<Rightarrow> queue fd' @ p = queue fd @ ts \<and> p \<noteq> [] \<and> 0 < queue_maxsize fd \<and>
                       queue_maxsize fd \<le> of_nat (length (queue fd'))
       | _ \<Rightarrow> False)) \<and>
   (data r \<noteq> [] \<and> 0 < queue_maxsize fd \<and> queue_maxsize fd \<le> of_nat (length (queue fd)) \<longrightarrow>
      backward_loop r up fd = (Blocked (data r), up, fd\<lparr>backward_info := Some PROCESS_DATA\<rparr>) \<and>
      forward_loop r up fd = (Blocked (data r), up, fd\<lparr>forward_info := Some PROCESS_DATA\<rparr>))"
proof -
  have i: "retrievers ''queue_size'' = Some q \<longrightarrow>
      (\<exists>fd. ResourceFeeder_init extra retrievers adp = Inr fd \<and> queue_maxsize fd = q \<and>
            queue fd = [])"
    using ResourceFeeder_init_queue [of retrievers q extra adp] by blast
  have d: "DEFAULT_RETRIEVERS_PARAMS ''queue_size'' = Some 101"
    by (simp add: DEFAULT_RETRIEVERS_PARAMS_def)
  have b: "queue_maxsize fd = of_int n \<and> 0 < n \<and> int (length (queue fd)) \<le> n \<longrightarrow>
      int (length (queue (snd (handle_response_data ts fd)))) \<le> n \<and>
      int (length (queue (snd (snd (start_sync up fd))))) \<le> n \<and>
      int (length (queue (snd (snd (retriever_backward up fd))))) \<le> n \<and>
      int (length (queue (snd (snd (retriever_forward up fd))))) \<le> n"
    using producers_bounded(1) [of fd n ts] producers_bounded(2,3,4) [of fd n up] by blast
  have h: "handle_response_data ts fd = (res, fd') \<longrightarrow>
      requests fd' = requests fd \<and>
      (case res of
         Done u \<Rightarrow> queue fd' = queue fd @ ts
       | Blocked p \<Rightarrow> queue fd' @ p = queue fd @ ts \<and> p \<noteq> [] \<and> 0 < queue_maxsize fd \<and>
                       queue_maxsize fd \<le> of_nat (length (queue fd'))
       | _ \<Rightarrow> False)"
    using handle_response_data_queue [of ts fd res fd'] handle_response_data_frame(4) [of ts fd]
    by auto
  have l: "data r \<noteq> [] \<and> 0 < queue_maxsize fd \<and> queue_maxsize fd \<le> of_nat (length (queue fd)) \<longrightarrow>
      backward_loop r up fd = (Blocked (data r), up, fd\<lparr>backward_info := Some PROCESS_DATA\<rparr>) \<and>
      forward_loop r up fd = (Blocked (data r), up, fd\<lparr>forward_info := Some PROCESS_DATA\<rparr>)"
    using backward_loop_blocks [of r fd up] forward_loop_blocks [of r fd up] by blast
  show ?thesis
    by (rule conjI [OF i conjI [OF d conjI [OF b conjI [OF h l]]]])
qed

theorem queue_backpressure_witness:
  "(\<exists>fd. ResourceFeeder_init DEFAULT_API_EXTRA_PARAMS DEFAULT_RETRIEVERS_PARAMS False = Inr fd \<and>
         queue_maxsize fd = 101 \<and> queue fd = []) \<and>
   int (length (queue (snd (snd (retriever_backward
      [page [''c'', ''d'', ''e''] ''o1'' ''p1'', page [''f''] ''o2'' ''p2''] full_feeder))))) \<le> 2 \<and>
   backward_loop \<lparr>data = [''c''], next_page_offset = ''o1'', prev_page_offset = ''p1''\<rparr>
      [page [''f''] ''o2'' ''p2''] full_feeder =
     (Blocked [''c''], [page [''f''] ''o2'' ''p2''],
      full_feeder\<lparr>backward_info := Some PROCESS_DATA\<rparr>) \<and>
   handle_response_data [''c'', ''d'', ''e''] (feeder1\<lparr>queue_maxsize := 2\<rparr>) =
     (Blocked [''e''], feeder1\<lparr>queue_maxsize := 2, queue := [''c'', ''d'']\<rparr>) \<and>
   queue (feeder1\<lparr>queue_maxsize := 2\<rparr>) @ [''c'', ''d'', ''e''] = [''c'', ''d''] @ [''e'']"
proof -
  let ?r = "\<lparr>data = [''c''], next_page_offset = ''o1'', prev_page_offset = ''p1''\<rparr>"
  let ?fd2 = "feeder1\<lparr>queue_maxsize := 2\<rparr>"
  let ?up = "[page [''c'', ''d'', ''e''] ''o1'' ''p1'', page [''f''] ''o2'' ''p2'']"
  have k: "DEFAULT_RETRIEVERS_PARAMS ''queue_size'' = Some 101"
    by (simp add: DEFAULT_RETRIEVERS_PARAMS_def)
  have f: "queue_maxsize full_feeder = of_int 2 \<and> (0 :: int) < 2 \<and>
           int (length (queue full_feeder)) \<le> 2"
    by (simp add: full_feeder_def)
  have g: "data ?r \<noteq> [] \<and> 0 < queue_maxsize full_feeder \<and>
           queue_maxsize full_feeder \<le> of_nat (length (queue full_feeder))"
    by (simp add: full_feeder_def)
  have h: "handle_response_data [''c'', ''d'', ''e''] ?fd2 =
             (Blocked [''e''], ?fd2\<lparr>queue := [''c'', ''d'']\<rparr>)"
    by (simp add: put_def feeder1_simps)
  note p1 = queue_backpressure [where retrievers = DEFAULT_RETRIEVERS_PARAMS and q = 101
      and extra = DEFAULT_API_EXTRA_PARAMS and adp = False, THEN conjunct1, THEN mp, OF k]
  note p2 = queue_backpressure [where fd = full_feeder and n = 2 and up = ?up,
      THEN conjunct2, THEN conjunct2, THEN conjunct1, THEN mp, OF f,
      THEN conjunct2, THEN conjunct2, THEN conjunct1]
  note p3 = queue_backpressure [where fd = full_feeder and r = ?r
      and up = "[page [''f''] ''o2'' ''p2'']",
      THEN conjunct2, THEN conjunct2, THEN conjunct2, THEN conjunct2, THEN mp, OF g,
      THEN conjunct1]
  note p4 = queue_backpressure [where fd = ?fd2 and ts = "[''c'', ''d'', ''e'']"
      and res = "Blocked [''e'']" and fd' = "?fd2\<lparr>queue := [''c'', ''d'']\<rparr>",
      THEN conjunct2, THEN conjunct2, THEN conjunct2, THEN conjunct1, THEN mp, OF h,
      THEN conjunct2]
  from p4 have p5: "queue ?fd2 @ [''c'', ''d'', ''e''] = [''c'', ''d''] @ [''e'']" by simp
  from p3 have p3': "backward_loop ?r [page [''f''] ''o2'' ''p2''] full_feeder =
     (Blocked [''c''], [page [''f''] ''o2'' ''p2''],
      full_feeder\<lparr>backward_info := Some PROCESS_DATA\<rparr>)" by simp
  show ?thesis
    by (rule conjI [OF p1 conjI [OF p2 conjI [OF p3' conjI [OF h p5]]]])
qed

text \<open>
  C9 as stated fails: with \<^verbatim>\<open>queue_size\<close> 0 the gevent queue has no bound, so the
  queue holds three items, which is more than \<^verbatim>\<open>queue_size\<close>, and no put blocks.
\<close>

theorem queue_unbounded_counterexample:
  "(\<exists>fd. ResourceFeeder_init DEFAULT_API_EXTRA_PARAMS
            (DEFAULT_RETRIEVERS_PARAMS(''queue_size'' \<mapsto> 0)) False = Inr fd \<and>
         queue_maxsize fd = 0 \<and>
         fst (handle_response_data [''a'', ''b'', ''c''] fd) = Done () \<and>
         queue (snd (handle_response_data [''a'', ''b'', ''c''] fd)) = [''a'', ''b'', ''c'']) \<and>
   (0 :: nat) < length [''a'', ''b'', ''c'']"
  by (simp add: ResourceFeeder_init_def DEFAULT_RETRIEVERS_PARAMS_def put_def)

end
